theory Spec2Isabelle
  imports Main "HOL-Library.AList"
begin

section \<open>The signalling servers of ModelPrint/P2P-Server\<close>

text \<open>
  The repository holds two implementations of one signalling protocol: the Deno server
  (\<^verbatim>\<open>src/server-deno.js\<close>) and the Node server (\<^verbatim>\<open>src/unnamed/part_000\<close>). They
  share \<^verbatim>\<open>touchRoom\<close>, \<^verbatim>\<open>getRoom\<close>, \<^verbatim>\<open>send\<close>, the rate limiter, the stale-room sweep,
  the \<^verbatim>\<open>join\<close> branch and \<^verbatim>\<open>cleanupSocket\<close>; they differ in the texts of their error
  and close messages, in the size check, and in the \<^verbatim>\<open>offer/answer/ice\<close> branch. The
  model is one set of functions with the implementation as a parameter.
\<close>

datatype variant = Deno | Node

subsection \<open>JavaScript values\<close>

text \<open>
  The fields of a parsed message are values that \<^verbatim>\<open>JSON.parse\<close> produces, or
  \<^verbatim>\<open>undefined\<close> for a missing field. Numbers are modelled as integers. An object or an
  array is a reference, compared by identity, as \<^verbatim>\<open>===\<close> and the keys of a
  \<^verbatim>\<open>Map\<close> compare it.
\<close>

datatype jsval = JUndefined | JNull | JBool bool | JNum int | JStr string | JObj nat

fun truthy :: "jsval \<Rightarrow> bool" where
  "truthy JUndefined = False"
| "truthy JNull = False"
| "truthy (JBool b) = b"
| "truthy (JNum n) = (n \<noteq> 0)"
| "truthy (JStr s) = (s \<noteq> [])"
| "truthy (JObj r) = True"

subsection \<open>Connections, rooms and the server state\<close>

datatype ready_state = CONNECTING | OPEN | CLOSING | CLOSED

text \<open>The envelopes the server writes to a connection.\<close>

datatype out_msg =
    ErrorMsg string
  | Joined jsval jsval
  | Ready
  | PeerLeft
  | Relay jsval jsval

type_synonym conn = nat

text \<open>
  A connection is the transport's socket object with the two fields the server attaches
  to it. \<open>outbox\<close> is what \<^verbatim>\<open>ws.send\<close> has written, oldest first; \<open>closeCalls\<close> is the
  log of the calls of \<^verbatim>\<open>ws.close\<close> (code and reason).
\<close>

record socket =
  roomId :: jsval
  role :: jsval
  readyState :: ready_state
  outbox :: "out_msg list"
  closeCalls :: "(nat option \<times> string) list"

record room =
  sender :: "conn option"
  receiver :: "conn option"
  token :: jsval
  touchedAt :: int

text \<open>
  \<open>rooms\<close> is the \<^verbatim>\<open>Map\<close> of rooms in insertion order, \<open>rateLimit\<close> the
  \<^verbatim>\<open>WeakMap\<close> of timestamps of each connection, \<open>socks\<close> the socket objects.
\<close>

record server =
  rooms :: "(jsval \<times> room) list"
  rateLimit :: "conn \<Rightarrow> int list option"
  socks :: "conn \<Rightarrow> socket"

definition MAX_PER_ROOM :: nat where
  "MAX_PER_ROOM = 2"

definition MAX_MESSAGE_BYTES :: nat where
  "MAX_MESSAGE_BYTES = 64 * 1024"

definition RATE_LIMIT_WINDOW_MS :: int where
  "RATE_LIMIT_WINDOW_MS = 10000"

definition RATE_LIMIT_MAX :: nat where
  "RATE_LIMIT_MAX = 60"

definition ROOM_TTL_MS :: int where
  "ROOM_TTL_MS = 30 * 60 * 1000"

subsection \<open>The texts of the two implementations\<close>

fun txt_required :: "variant \<Rightarrow> string" where
  "txt_required Deno = ''roomId, token, role required''"
| "txt_required Node = ''roomId, token, role required''"

fun txt_bad_token :: "variant \<Rightarrow> string" where
  "txt_bad_token Deno = ''bad token''"
| "txt_bad_token Node = ''Invalid token''"

fun txt_sender_exists :: "variant \<Rightarrow> string" where
  "txt_sender_exists Deno = ''sender exists''"
| "txt_sender_exists Node = ''Sender already present''"

fun txt_receiver_exists :: "variant \<Rightarrow> string" where
  "txt_receiver_exists Deno = ''receiver exists''"
| "txt_receiver_exists Node = ''Receiver already present''"

fun txt_room_full :: "variant \<Rightarrow> string" where
  "txt_room_full Deno = ''room full''"
| "txt_room_full Node = ''Room full''"

fun txt_no_room :: "variant \<Rightarrow> string" where
  "txt_no_room Deno = ''no room''"
| "txt_no_room Node = ''Room missing''"

fun txt_unknown_type :: "variant \<Rightarrow> string" where
  "txt_unknown_type Deno = ''unknown type''"
| "txt_unknown_type Node = ''Unknown message type''"

fun txt_too_big :: "variant \<Rightarrow> string" where
  "txt_too_big Deno = ''too big''"
| "txt_too_big Node = ''Message too large''"

fun txt_rate_limit :: "variant \<Rightarrow> string" where
  "txt_rate_limit Deno = ''rate limit''"
| "txt_rate_limit Node = ''Rate limit exceeded''"

fun txt_bad_json :: "variant \<Rightarrow> string" where
  "txt_bad_json Deno = ''bad json''"
| "txt_bad_json Node = ''Invalid JSON''"

subsection \<open>The helpers\<close>

text \<open>
  \<^verbatim>\<open>now()\<close> is the parameter \<open>t\<close> of every handler: one reading of the clock for one
  invocation of a handler.
\<close>

definition touchRoom :: "jsval \<Rightarrow> int \<Rightarrow> server \<Rightarrow> server" where
  "touchRoom rid t st =
     (case map_of (rooms st) rid of
        None \<Rightarrow> st
      | Some rm \<Rightarrow> st\<lparr>rooms := AList.update rid (rm\<lparr>touchedAt := t\<rparr>) (rooms st)\<rparr>)"

text \<open>
  \<^verbatim>\<open>getRoom\<close> returns the room object and the registry that holds it. The source
  mutates the returned object in place; the model writes it back with \<open>set_room\<close>.
\<close>

definition getRoom :: "jsval \<Rightarrow> int \<Rightarrow> server \<Rightarrow> room \<times> server" where
  "getRoom rid t st =
     (case map_of (rooms st) rid of
        Some rm \<Rightarrow> (rm, st)
      | None \<Rightarrow>
          (let rm = \<lparr>sender = None, receiver = None, token = JNull, touchedAt = t\<rparr>
           in (rm, st\<lparr>rooms := AList.update rid rm (rooms st)\<rparr>)))"

definition set_room :: "jsval \<Rightarrow> room \<Rightarrow> server \<Rightarrow> server" where
  "set_room rid rm st = st\<lparr>rooms := AList.update rid rm (rooms st)\<rparr>"

text \<open>\<^verbatim>\<open>send(ws, msg)\<close>: \<open>None\<close> is \<^verbatim>\<open>null\<close>; a socket that is not open gets nothing.\<close>

fun send :: "conn option \<Rightarrow> out_msg \<Rightarrow> server \<Rightarrow> server" where
  "send None m st = st"
| "send (Some c) m st =
     (if readyState (socks st c) = OPEN
      then st\<lparr>socks := (socks st)(c := (socks st c)\<lparr>outbox := outbox (socks st c) @ [m]\<rparr>)\<rparr>
      else st)"

text \<open>
  \<^verbatim>\<open>ws.close(code, reason)\<close>: the call is logged, and a socket that is connecting or open
  starts closing. The transport reports the end of the connection later, as an event of
  its own.
\<close>

definition close_ws :: "conn \<Rightarrow> nat option \<Rightarrow> string \<Rightarrow> server \<Rightarrow> server" where
  "close_ws c code reason st =
     (let s = socks st c
      in st\<lparr>socks := (socks st)(c := s\<lparr>
            readyState := (if readyState s = OPEN \<or> readyState s = CONNECTING
                           then CLOSING else readyState s),
            closeCalls := closeCalls s @ [(code, reason)]\<rparr>)\<rparr>)"

fun close_opt :: "conn option \<Rightarrow> server \<Rightarrow> server" where
  "close_opt None st = st"
| "close_opt (Some c) st = close_ws c None [] st"

subsection \<open>The stale-room sweep\<close>

fun cleanupStale_loop :: "int \<Rightarrow> (jsval \<times> room) list \<Rightarrow> server \<Rightarrow> server" where
  "cleanupStale_loop cutoff [] st = st"
| "cleanupStale_loop cutoff ((rid, rm) # es) st =
     cleanupStale_loop cutoff es
       (if touchedAt rm < cutoff
        then (let st1 = close_opt (sender rm) st;
                  st2 = close_opt (receiver rm) st1
              in st2\<lparr>rooms := AList.delete rid (rooms st2)\<rparr>)
        else st)"

definition cleanupStale :: "int \<Rightarrow> server \<Rightarrow> server" where
  "cleanupStale t st = cleanupStale_loop (t - ROOM_TTL_MS) (rooms st) st"

subsection \<open>The rate limiter\<close>

definition enforceRate :: "variant \<Rightarrow> conn \<Rightarrow> int \<Rightarrow> server \<Rightarrow> bool \<times> server" where
  "enforceRate v ws t st =
     (let windowStart = t - RATE_LIMIT_WINDOW_MS;
          arr = (case rateLimit st ws of None \<Rightarrow> [] | Some a \<Rightarrow> a);
          next = filter (\<lambda>x. x \<ge> windowStart) arr @ [t];
          st1 = st\<lparr>rateLimit := (rateLimit st)(ws \<mapsto> next)\<rparr>
      in if length next > RATE_LIMIT_MAX
         then (False, close_ws ws (Some 1013) (txt_rate_limit v) st1)
         else (True, st1))"

subsection \<open>Cleanup of a connection\<close>

definition cleanupSocket :: "conn \<Rightarrow> int \<Rightarrow> server \<Rightarrow> server" where
  "cleanupSocket ws t st =
     (let rid = roomId (socks st ws); rl = role (socks st ws)
      in if \<not> truthy rid \<or> \<not> truthy rl then st
         else case map_of (rooms st) rid of
           None \<Rightarrow> st
         | Some rm \<Rightarrow>
             (let rm1 = (if rl = JStr ''sender'' \<and> sender rm = Some ws
                         then rm\<lparr>sender := None\<rparr> else rm);
                  rm2 = (if rl = JStr ''receiver'' \<and> receiver rm1 = Some ws
                         then rm1\<lparr>receiver := None\<rparr> else rm1);
                  peer = (if rl = JStr ''sender'' then receiver rm2 else sender rm2);
                  st1 = send peer PeerLeft (set_room rid rm2 st);
                  st2 = touchRoom rid t st1
              in if sender rm2 = None \<and> receiver rm2 = None
                 then st2\<lparr>rooms := AList.delete rid (rooms st2)\<rparr>
                 else st2))"

subsection \<open>The message handler\<close>

text \<open>The fields of a parsed message that the handler reads.\<close>

datatype envelope =
  Envelope (mtype: jsval) (mroomId: jsval) (mtoken: jsval) (mrole: jsval) (mdata: jsval)

text \<open>
  What \<^verbatim>\<open>JSON.parse\<close> makes of a payload: it throws (\<open>BadJson\<close>), it returns
  \<^verbatim>\<open>null\<close>, whose destructuring throws a \<^verbatim>\<open>TypeError\<close> that no handler catches, or it
  returns a value whose fields are read (a value with no fields reads \<^verbatim>\<open>undefined\<close>
  everywhere).
\<close>

datatype parsed = BadJson | JsonNull | Parsed envelope

record payload =
  isText :: bool
  nbytes :: nat
  json :: parsed

datatype js_error = TypeError

definition handle_join :: "variant \<Rightarrow> conn \<Rightarrow> envelope \<Rightarrow> int \<Rightarrow> server \<Rightarrow> server" where
  "handle_join v ws m t st =
     (let rid = mroomId m; tok = mtoken m; rl = mrole m
      in if \<not> truthy rid \<or> \<not> truthy tok \<or> \<not> truthy rl
         then send (Some ws) (ErrorMsg (txt_required v)) st
         else
           (let (rm, st1) = getRoom rid t st
            in if truthy (token rm) \<and> token rm \<noteq> tok
               then send (Some ws) (ErrorMsg (txt_bad_token v)) st1
               else
                 (let rm1 = (if \<not> truthy (token rm) then rm\<lparr>token := tok\<rparr> else rm);
                      st2 = set_room rid rm1 st1
                  in if rl = JStr ''sender'' \<and> sender rm1 \<noteq> None \<and> sender rm1 \<noteq> Some ws
                     then send (Some ws) (ErrorMsg (txt_sender_exists v)) st2
                     else if rl = JStr ''receiver'' \<and> receiver rm1 \<noteq> None
                             \<and> receiver rm1 \<noteq> Some ws
                     then send (Some ws) (ErrorMsg (txt_receiver_exists v)) st2
                     else if length (filter (\<lambda>x. x \<noteq> None) [sender rm1, receiver rm1])
                               \<ge> MAX_PER_ROOM
                             \<and> Some ws \<notin> set [sender rm1, receiver rm1]
                     then send (Some ws) (ErrorMsg (txt_room_full v)) st2
                     else
                       (let st3 = st2\<lparr>socks := (socks st2)
                                     (ws := (socks st2 ws)\<lparr>roomId := rid, role := rl\<rparr>)\<rparr>;
                            rm2 = (if rl = JStr ''sender'' then rm1\<lparr>sender := Some ws\<rparr>
                                   else rm1);
                            rm3 = (if rl = JStr ''receiver'' then rm2\<lparr>receiver := Some ws\<rparr>
                                   else rm2);
                            st4 = touchRoom rid t (set_room rid rm3 st3);
                            st5 = send (Some ws) (Joined rid rl) st4
                        in if sender rm3 \<noteq> None \<and> receiver rm3 \<noteq> None
                           then send (receiver rm3) Ready (send (sender rm3) Ready st5)
                           else st5))))"

text \<open>
  The \<^verbatim>\<open>offer/answer/ice\<close> branch. The Node server checks that the connection has joined
  and that the peer's socket is open; the Deno server looks the room up and hands the
  envelope to \<^verbatim>\<open>send\<close>.
\<close>

fun handle_relay :: "variant \<Rightarrow> conn \<Rightarrow> envelope \<Rightarrow> int \<Rightarrow> server \<Rightarrow> server" where
  "handle_relay Deno ws m t st =
     (case map_of (rooms st) (roomId (socks st ws)) of
        None \<Rightarrow> send (Some ws) (ErrorMsg (txt_no_room Deno)) st
      | Some rm \<Rightarrow>
          (let peer = (if role (socks st ws) = JStr ''sender'' then receiver rm else sender rm)
           in send peer (Relay (mtype m) (mdata m)) (touchRoom (roomId (socks st ws)) t st)))"
| "handle_relay Node ws m t st =
     (let rid = roomId (socks st ws); rl = role (socks st ws)
      in if \<not> truthy rid \<or> \<not> truthy rl
         then send (Some ws) (ErrorMsg ''Join first'') st
         else case map_of (rooms st) rid of
           None \<Rightarrow> send (Some ws) (ErrorMsg (txt_no_room Node)) st
         | Some rm \<Rightarrow>
             (let target = (if rl = JStr ''sender'' then receiver rm else sender rm)
              in if (case target of None \<Rightarrow> False
                     | Some p \<Rightarrow> readyState (socks st p) = OPEN)
                 then send target (Relay (mtype m) (mdata m)) (touchRoom rid t st)
                 else send (Some ws) (ErrorMsg ''Peer not connected'') st))"

definition is_relay_type :: "jsval \<Rightarrow> bool" where
  "is_relay_type ty = (ty = JStr ''offer'' \<or> ty = JStr ''answer'' \<or> ty = JStr ''ice'')"

definition dispatch :: "variant \<Rightarrow> conn \<Rightarrow> envelope \<Rightarrow> int \<Rightarrow> server \<Rightarrow> server" where
  "dispatch v ws m t st =
     (if mtype m = JStr ''join'' then handle_join v ws m t st
      else if is_relay_type (mtype m) then handle_relay v ws m t st
      else if mtype m = JStr ''leave'' then cleanupSocket ws t st
      else send (Some ws) (ErrorMsg (txt_unknown_type v)) st)"

text \<open>
  The size check: the Deno server measures text frames only, the Node server every
  payload. A binary frame is no JSON text for the Deno server's \<^verbatim>\<open>JSON.parse\<close>.
\<close>

fun too_big :: "variant \<Rightarrow> payload \<Rightarrow> bool" where
  "too_big Deno p = (isText p \<and> nbytes p > MAX_MESSAGE_BYTES)"
| "too_big Node p = (nbytes p > MAX_MESSAGE_BYTES)"

fun parse :: "variant \<Rightarrow> payload \<Rightarrow> parsed" where
  "parse Deno p = (if isText p then json p else BadJson)"
| "parse Node p = json p"

text \<open>
  The handler of a message: the exception it ends with, if any, and the state it leaves.
\<close>

definition on_message ::
  "variant \<Rightarrow> conn \<Rightarrow> payload \<Rightarrow> int \<Rightarrow> server \<Rightarrow> js_error option \<times> server" where
  "on_message v ws p t st =
     (if too_big v p then (None, close_ws ws (Some 1009) (txt_too_big v) st)
      else case enforceRate v ws t st of
        (False, st1) \<Rightarrow> (None, st1)
      | (True, st1) \<Rightarrow>
          (case parse v p of
             BadJson \<Rightarrow> (None, close_ws ws (Some 1003) (txt_bad_json v) st1)
           | JsonNull \<Rightarrow> (Some TypeError, st1)
           | Parsed m \<Rightarrow> (None, dispatch v ws m t st1)))"

subsection \<open>Events and reachable states\<close>

text \<open>
  What can happen to the server: a message arrives on a connection, the transport
  reports that a connection has closed or failed (both run \<^verbatim>\<open>cleanupSocket\<close>), or the
  timer runs the sweep. Each carries the clock's reading. A connection that the Node
  server turns away for its request path gets no handler and causes no event. A handler
  that ends with an exception leaves the state it had reached.
\<close>

datatype event =
    Message conn payload int
  | SockClose conn int
  | SockError conn int
  | Sweep int

fun step :: "variant \<Rightarrow> event \<Rightarrow> server \<Rightarrow> server" where
  "step v (Message ws p t) st = snd (on_message v ws p t st)"
| "step v (SockClose ws t) st =
     cleanupSocket ws t (st\<lparr>socks := (socks st)(ws := (socks st ws)\<lparr>readyState := CLOSED\<rparr>)\<rparr>)"
| "step v (SockError ws t) st = cleanupSocket ws t st"
| "step v (Sweep t) st = cleanupStale t st"

text \<open>The state at start: no room, no timestamps, every connection fresh and open.\<close>

definition fresh_socket :: socket where
  "fresh_socket =
     \<lparr>roomId = JUndefined, role = JUndefined, readyState = OPEN, outbox = [], closeCalls = []\<rparr>"

definition init :: server where
  "init = \<lparr>rooms = [], rateLimit = (\<lambda>c. None), socks = (\<lambda>c. fresh_socket)\<rparr>"

fun run :: "variant \<Rightarrow> event list \<Rightarrow> server \<Rightarrow> server" where
  "run v [] st = st"
| "run v (e # es) st = run v es (step v e st)"

inductive reachable :: "variant \<Rightarrow> server \<Rightarrow> bool" for v :: variant where
  reachable_init: "reachable v init"
| reachable_step: "reachable v st \<Longrightarrow> reachable v (step v e st)"

subsection \<open>Observations used in the statements\<close>

text \<open>
  The rate checks of the successive messages of one connection, at the times \<open>ts\<close>:
  the answers of \<^verbatim>\<open>enforceRate\<close> in order, and the state after the last.
\<close>

fun arrivals :: "variant \<Rightarrow> conn \<Rightarrow> int list \<Rightarrow> server \<Rightarrow> bool list \<times> server" where
  "arrivals v ws [] st = ([], st)"
| "arrivals v ws (t # ts) st =
     (let (ok, st1) = enforceRate v ws t st;
          (oks, st2) = arrivals v ws ts st1
      in (ok # oks, st2))"

text \<open>The timestamps stored for a connection (\<^verbatim>\<open>rateLimit.get(ws) || []\<close>).\<close>

definition window_of :: "server \<Rightarrow> conn \<Rightarrow> int list" where
  "window_of st ws = (case rateLimit st ws of None \<Rightarrow> [] | Some a \<Rightarrow> a)"

text \<open>
  A message reaches the dispatch on its \<^verbatim>\<open>type\<close> when it passes the size check and
  the rate check and parses to a value with fields.
\<close>

definition accepted :: "variant \<Rightarrow> conn \<Rightarrow> payload \<Rightarrow> int \<Rightarrow> server \<Rightarrow> envelope \<Rightarrow> bool" where
  "accepted v ws p t st m =
     (\<not> too_big v p \<and> fst (enforceRate v ws t st) \<and> parse v p = Parsed m)"

text \<open>The state a passed rate check leaves: only the connection's timestamps differ.\<close>

definition after_rate :: "conn \<Rightarrow> int \<Rightarrow> server \<Rightarrow> server" where
  "after_rate ws t st =
     st\<lparr>rateLimit := (rateLimit st)(ws \<mapsto>
           filter (\<lambda>x. x \<ge> t - RATE_LIMIT_WINDOW_MS) (window_of st ws) @ [t])\<rparr>"

text \<open>The slot of a room that a role names; a role other than the two names none.\<close>

definition slot :: "jsval \<Rightarrow> room \<Rightarrow> conn option" where
  "slot rl rm =
     (if rl = JStr ''sender'' then sender rm
      else if rl = JStr ''receiver'' then receiver rm
      else None)"

text \<open>Connection \<open>c\<close> holds \<open>(rid, rl)\<close>: it is in the slot \<open>rl\<close> of a room registered as \<open>rid\<close>.\<close>

definition holds :: "server \<Rightarrow> conn \<Rightarrow> jsval \<Rightarrow> jsval \<Rightarrow> bool" where
  "holds st c rid rl = list_ex (\<lambda>(k, rm). k = rid \<and> slot rl rm = Some c) (rooms st)"

text \<open>The number of occupied slots of a room.\<close>

definition occupied :: "room \<Rightarrow> nat" where
  "occupied rm = length (filter (\<lambda>x. x \<noteq> None) [sender rm, receiver rm])"

text \<open>The two fields the server attaches to a connection.\<close>

definition binding :: "server \<Rightarrow> conn \<Rightarrow> jsval \<times> jsval" where
  "binding st c = (roomId (socks st c), role (socks st c))"

text \<open>
  What a \<^verbatim>\<open>Map\<close> guarantees of the registry, and what the join branch guarantees of
  its keys: every room id is registered once, and every registered id is truthy.
\<close>

definition registry_ok :: "server \<Rightarrow> bool" where
  "registry_ok st =
     (distinct (map fst (rooms st)) \<and> list_all truthy (map fst (rooms st)))"

text \<open>Connection \<open>c\<close> is in a slot of some registered room.\<close>

definition in_slot :: "server \<Rightarrow> conn \<Rightarrow> bool" where
  "in_slot st c = list_ex (\<lambda>(k, rm). sender rm = Some c \<or> receiver rm = Some c) (rooms st)"

text \<open>The number of \<^verbatim>\<open>ready\<close> envelopes written to a connection so far.\<close>

definition readies :: "server \<Rightarrow> conn \<Rightarrow> nat" where
  "readies st c = length (filter (\<lambda>x. x = Ready) (outbox (socks st c)))"

text \<open>The event is a message of connection \<open>c\<close> that parses to a \<^verbatim>\<open>join\<close>.\<close>

fun is_join_of :: "variant \<Rightarrow> conn \<Rightarrow> event \<Rightarrow> bool" where
  "is_join_of v c (Message ws p t) =
     (ws = c \<and> (case parse v p of Parsed m \<Rightarrow> mtype m = JStr ''join'' | _ \<Rightarrow> False))"
| "is_join_of v c (SockClose ws t) = False"
| "is_join_of v c (SockError ws t) = False"
| "is_join_of v c (Sweep t) = False"

text \<open>
  The times of the rate checks of connection \<open>ws\<close> in a run of events: one for each of
  its messages that passes the size check.
\<close>

fun rate_times :: "variant \<Rightarrow> conn \<Rightarrow> event list \<Rightarrow> int list" where
  "rate_times v ws [] = []"
| "rate_times v ws (Message c p t # es) =
     (if c = ws \<and> \<not> too_big v p then t # rate_times v ws es else rate_times v ws es)"
| "rate_times v ws (SockClose c t # es) = rate_times v ws es"
| "rate_times v ws (SockError c t # es) = rate_times v ws es"
| "rate_times v ws (Sweep t # es) = rate_times v ws es"

text \<open>
  The join branch admits a message of connection \<open>ws\<close>: the three fields are present
  and none of the four rejections applies to the room registered under the message's
  \<open>roomId\<close> (a room that is not registered yet is created empty and rejects nothing).
\<close>

definition admits :: "conn \<Rightarrow> envelope \<Rightarrow> server \<Rightarrow> bool" where
  "admits ws m st =
     (truthy (mroomId m) \<and> truthy (mtoken m) \<and> truthy (mrole m) \<and>
      (case map_of (rooms st) (mroomId m) of
         None \<Rightarrow> True
       | Some rm \<Rightarrow>
           \<not> (truthy (token rm) \<and> token rm \<noteq> mtoken m) \<and>
           \<not> (mrole m = JStr ''sender'' \<and> sender rm \<noteq> None \<and> sender rm \<noteq> Some ws) \<and>
           \<not> (mrole m = JStr ''receiver'' \<and> receiver rm \<noteq> None \<and> receiver rm \<noteq> Some ws) \<and>
           \<not> (length (filter (\<lambda>x. x \<noteq> None) [sender rm, receiver rm]) \<ge> MAX_PER_ROOM
                \<and> Some ws \<notin> set [sender rm, receiver rm])))"

subsection \<open>Example messages and states\<close>

definition join_env :: "string \<Rightarrow> string \<Rightarrow> string \<Rightarrow> envelope" where
  "join_env r tk rl = Envelope (JStr ''join'') (JStr r) (JStr tk) (JStr rl) JUndefined"

definition offer_env :: envelope where
  "offer_env = Envelope (JStr ''offer'') JUndefined JUndefined JUndefined (JStr ''sdp'')"

definition leave_env :: envelope where
  "leave_env = Envelope (JStr ''leave'') JUndefined JUndefined JUndefined JUndefined"

definition text_payload :: "envelope \<Rightarrow> payload" where
  "text_payload m = \<lparr>isText = True, nbytes = 100, json = Parsed m\<rparr>"

text \<open>Connection 1 has joined room \<open>r1\<close> as sender with token \<open>t\<close>, at time 0.\<close>

definition alone_state :: server where
  "alone_state =
     \<lparr>rooms = [(JStr ''r1'',
         \<lparr>sender = Some 1, receiver = None, token = JStr ''t'', touchedAt = 0\<rparr>)],
      rateLimit = (\<lambda>c. None)(1 \<mapsto> [0]),
      socks = (\<lambda>c. fresh_socket)
        (1 := \<lparr>roomId = JStr ''r1'', role = JStr ''sender'', readyState = OPEN,
               outbox = [Joined (JStr ''r1'') (JStr ''sender'')], closeCalls = []\<rparr>)\<rparr>"

text \<open>Then connection 2 has joined the same room as receiver, at time 1.\<close>

definition paired_state :: server where
  "paired_state =
     \<lparr>rooms = [(JStr ''r1'',
         \<lparr>sender = Some 1, receiver = Some 2, token = JStr ''t'', touchedAt = 1\<rparr>)],
      rateLimit = (\<lambda>c. None)(1 \<mapsto> [0], 2 \<mapsto> [1]),
      socks = (\<lambda>c. fresh_socket)
        (1 := \<lparr>roomId = JStr ''r1'', role = JStr ''sender'', readyState = OPEN,
               outbox = [Joined (JStr ''r1'') (JStr ''sender''), Ready], closeCalls = []\<rparr>,
         2 := \<lparr>roomId = JStr ''r1'', role = JStr ''receiver'', readyState = OPEN,
               outbox = [Joined (JStr ''r1'') (JStr ''receiver''), Ready], closeCalls = []\<rparr>)\<rparr>"

text \<open>Then connection 1 has sent \<^verbatim>\<open>leave\<close>, at time 2.\<close>

definition left_state :: server where
  "left_state =
     \<lparr>rooms = [(JStr ''r1'',
         \<lparr>sender = None, receiver = Some 2, token = JStr ''t'', touchedAt = 2\<rparr>)],
      rateLimit = (\<lambda>c. None)(2 \<mapsto> [1], 1 \<mapsto> [0, 2]),
      socks = (\<lambda>c. fresh_socket)
        (1 := \<lparr>roomId = JStr ''r1'', role = JStr ''sender'', readyState = OPEN,
               outbox = [Joined (JStr ''r1'') (JStr ''sender''), Ready], closeCalls = []\<rparr>,
         2 := \<lparr>roomId = JStr ''r1'', role = JStr ''receiver'', readyState = OPEN,
               outbox = [Joined (JStr ''r1'') (JStr ''receiver''), Ready, PeerLeft],
               closeCalls = []\<rparr>)\<rparr>"

text \<open>Connection 1, bound to \<open>r1\<close> as sender, has then joined \<open>r2\<close> as receiver, at time 1.\<close>

definition rebound_state :: server where
  "rebound_state =
     \<lparr>rooms = [(JStr ''r1'',
         \<lparr>sender = Some 1, receiver = None, token = JStr ''t'', touchedAt = 0\<rparr>),
               (JStr ''r2'',
         \<lparr>sender = None, receiver = Some 1, token = JStr ''t'', touchedAt = 1\<rparr>)],
      rateLimit = (\<lambda>c. None)(1 \<mapsto> [0, 1]),
      socks = (\<lambda>c. fresh_socket)
        (1 := \<lparr>roomId = JStr ''r2'', role = JStr ''receiver'', readyState = OPEN,
               outbox = [Joined (JStr ''r1'') (JStr ''sender''),
                         Joined (JStr ''r2'') (JStr ''receiver'')],
               closeCalls = []\<rparr>)\<rparr>"




section \<open>The rate limiter\<close>

lemma enforceRate_window:
  "window_of (snd (enforceRate v ws t st)) ws =
     filter (\<lambda>x. x \<ge> t - RATE_LIMIT_WINDOW_MS) (window_of st ws) @ [t]"
  by (simp add: enforceRate_def window_of_def close_ws_def Let_def)

lemma enforceRate_ok:
  "fst (enforceRate v ws t st) =
     (length (filter (\<lambda>x. x \<ge> t - RATE_LIMIT_WINDOW_MS) (window_of st ws)) < RATE_LIMIT_MAX)"
  by (auto simp add: enforceRate_def window_of_def Let_def)

lemma arrivals_snoc:
  "arrivals v ws (ts @ [t]) st =
     (let (oks, st1) = arrivals v ws ts st; (ok, st2) = enforceRate v ws t st1
      in (oks @ [ok], st2))"
  by (induction ts arbitrary: st) (simp_all add: Let_def case_prod_beta)

lemma arrivals_keeps:
  "\<forall>a \<in> set ts. \<forall>b \<in> set ts. b - a \<le> RATE_LIMIT_WINDOW_MS \<Longrightarrow>
     \<exists>pre. window_of (snd (arrivals v ws ts st)) ws = pre @ ts"
proof (induction ts rule: rev_induct)
  case Nil
  then show ?case by simp
next
  case (snoc t ts)
  then obtain pre where pre: "window_of (snd (arrivals v ws ts st)) ws = pre @ ts"
    by auto
  have keep: "filter (\<lambda>x. x \<ge> t - RATE_LIMIT_WINDOW_MS) ts = ts"
    using snoc.prems by (auto simp: filter_id_conv)
  have "window_of (snd (arrivals v ws (ts @ [t]) st)) ws =
          filter (\<lambda>x. x \<ge> t - RATE_LIMIT_WINDOW_MS) (pre @ ts) @ [t]"
    using enforceRate_window [of v ws t "snd (arrivals v ws ts st)"] pre
    by (simp add: arrivals_snoc Let_def case_prod_beta)
  then show ?case using keep by simp
qed

section \<open>Facts about the helpers\<close>

lemma after_rate_fields [simp]:
  "rooms (after_rate ws t st) = rooms st"
  "socks (after_rate ws t st) = socks st"
  by (simp_all add: after_rate_def)

lemma on_message_accepted:
  "accepted v ws p t st m \<Longrightarrow>
     on_message v ws p t st = (None, dispatch v ws m t (after_rate ws t st))"
  by (auto simp: accepted_def on_message_def enforceRate_def after_rate_def window_of_def
        Let_def split: if_splits)

lemma update_absent: "map_of al k = None \<Longrightarrow> AList.update k x al = al @ [(k, x)]"
  by (induction al) (auto split: if_splits)

lemma update_appended:
  "map_of al k = None \<Longrightarrow> AList.update k x (al @ [(k, y)]) = al @ [(k, x)]"
  by (induction al) (auto split: if_splits)

lemma set_room_same [simp]: "map_of (rooms st) rid = Some rm \<Longrightarrow> set_room rid rm st = st"
  by (simp add: set_room_def AList.update_triv)

section \<open>The join branch\<close>

lemma handle_join_bad_token:
  assumes "map_of (rooms st) (mroomId m) = Some rm" "truthy (token rm)" "token rm \<noteq> mtoken m"
  shows "handle_join v ws m t st =
     send (Some ws) (ErrorMsg (if truthy (mroomId m) \<and> truthy (mtoken m) \<and> truthy (mrole m)
                               then txt_bad_token v else txt_required v)) st"
  using assms by (simp add: handle_join_def getRoom_def Let_def)

lemma handle_join_full_room:
  assumes fields: "truthy (mroomId m)" "truthy (mtoken m)" "truthy (mrole m)"
    and room: "map_of (rooms st) (mroomId m) = Some rm"
    and tok: "token rm = mtoken m"
    and occ: "sender rm = Some a" "receiver rm = Some b" "a \<noteq> ws" "b \<noteq> ws"
  shows "handle_join v ws m t st =
     send (Some ws) (ErrorMsg (if mrole m = JStr ''sender'' then txt_sender_exists v
                               else if mrole m = JStr ''receiver'' then txt_receiver_exists v
                               else txt_room_full v)) st"
  using assms by (simp add: handle_join_def getRoom_def Let_def MAX_PER_ROOM_def)

lemma handle_join_new_room_other_role:
  assumes fields: "truthy (mroomId m)" "truthy (mtoken m)" "truthy (mrole m)"
    and rl: "mrole m \<noteq> JStr ''sender''" "mrole m \<noteq> JStr ''receiver''"
    and room: "map_of (rooms st) (mroomId m) = None"
  shows "handle_join v ws m t st =
     send (Some ws) (Joined (mroomId m) (mrole m))
       (st\<lparr>rooms := rooms st @ [(mroomId m,
               \<lparr>sender = None, receiver = None, token = mtoken m, touchedAt = t\<rparr>)],
           socks := (socks st)(ws := (socks st ws)\<lparr>roomId := mroomId m, role := mrole m\<rparr>)\<rparr>)"
  using assms
  by (simp add: handle_join_def getRoom_def Let_def MAX_PER_ROOM_def set_room_def touchRoom_def
      AList.update_conv' update_absent update_appended)

lemma handle_join_rejoin:
  assumes fields: "truthy (mroomId m)" "truthy (mtoken m)"
    and room: "map_of (rooms st) (mroomId m) = Some rm"
    and tok: "token rm = mtoken m"
    and rl: "mrole m = JStr ''sender'' \<or> mrole m = JStr ''receiver''"
    and mine: "slot (mrole m) rm = Some ws"
  shows "handle_join v ws m t st =
     (let st5 = send (Some ws) (Joined (mroomId m) (mrole m))
                  (st\<lparr>socks := (socks st)
                        (ws := (socks st ws)\<lparr>roomId := mroomId m, role := mrole m\<rparr>),
                      rooms := AList.update (mroomId m) (rm\<lparr>touchedAt := t\<rparr>) (rooms st)\<rparr>)
      in if sender rm \<noteq> None \<and> receiver rm \<noteq> None
         then send (receiver rm) Ready (send (sender rm) Ready st5)
         else st5)"
proof (cases "mrole m = JStr ''sender''")
  case True
  then have s: "sender rm = Some ws"
    using mine by (simp add: slot_def)
  then have e: "rm\<lparr>sender := Some ws, touchedAt := t\<rparr> = rm\<lparr>touchedAt := t\<rparr>"
    by simp
  show ?thesis
    using fields room tok True s
    by (simp add: handle_join_def getRoom_def Let_def MAX_PER_ROOM_def set_room_def
        touchRoom_def AList.update_conv' e)
next
  case False
  then have r: "mrole m = JStr ''receiver''"
    using rl by simp
  then have s: "receiver rm = Some ws"
    using mine by (simp add: slot_def)
  then have e: "rm\<lparr>receiver := Some ws, touchedAt := t\<rparr> = rm\<lparr>touchedAt := t\<rparr>"
    by simp
  show ?thesis
    using fields room tok r s
    by (simp add: handle_join_def getRoom_def Let_def MAX_PER_ROOM_def set_room_def
        touchRoom_def AList.update_conv' e)
qed

section \<open>The relay branch\<close>

lemma handle_relay_unjoined:
  assumes "roomId (socks st ws) = JUndefined" "map_of (rooms st) JUndefined = None"
  shows "handle_relay v ws m t st =
     send (Some ws) (ErrorMsg (case v of Node \<Rightarrow> ''Join first'' | Deno \<Rightarrow> ''no room'')) st"
  using assms by (cases v) simp_all

lemma handle_relay_Node_no_peer:
  assumes "truthy (roomId (socks st ws))" "truthy (role (socks st ws))"
    and "map_of (rooms st) (roomId (socks st ws)) = Some rm"
    and "\<forall>p. (if role (socks st ws) = JStr ''sender'' then receiver rm else sender rm) = Some p
            \<longrightarrow> readyState (socks st p) \<noteq> OPEN"
  shows "handle_relay Node ws m t st = send (Some ws) (ErrorMsg ''Peer not connected'') st"
  using assms by (auto simp: Let_def split: option.splits)

section \<open>The example states\<close>

lemmas example_defs = join_env_def offer_env_def leave_env_def text_payload_def
  accepted_def enforceRate_def window_of_def
  MAX_MESSAGE_BYTES_def RATE_LIMIT_MAX_def RATE_LIMIT_WINDOW_MS_def

lemma alone_reached:
  "step v (Message 1 (text_payload (join_env ''r1'' ''t'' ''sender'')) 0) init = alone_state"
proof -
  have acc: "accepted v 1 (text_payload (join_env ''r1'' ''t'' ''sender'')) 0 init
               (join_env ''r1'' ''t'' ''sender'')"
    by (cases v) (simp_all add: example_defs init_def)
  show ?thesis
    by (simp only: step.simps on_message_accepted [OF acc] snd_conv)
       (simp add: join_env_def alone_state_def init_def after_rate_def window_of_def
          fresh_socket_def dispatch_def handle_join_def getRoom_def set_room_def touchRoom_def
          MAX_PER_ROOM_def RATE_LIMIT_WINDOW_MS_def Let_def)
qed

lemma paired_reached:
  "step v (Message 2 (text_payload (join_env ''r1'' ''t'' ''receiver'')) 1) alone_state = paired_state"
proof -
  have acc: "accepted v 2 (text_payload (join_env ''r1'' ''t'' ''receiver'')) 1 alone_state
               (join_env ''r1'' ''t'' ''receiver'')"
    by (cases v) (simp_all add: example_defs alone_state_def)
  show ?thesis
    by (simp only: step.simps on_message_accepted [OF acc] snd_conv)
       (simp add: join_env_def alone_state_def paired_state_def after_rate_def window_of_def
          fresh_socket_def dispatch_def handle_join_def getRoom_def set_room_def touchRoom_def
          MAX_PER_ROOM_def RATE_LIMIT_WINDOW_MS_def Let_def)
qed

section \<open>The registry in reachable states\<close>

lemma rooms_send [simp]: "rooms (send x m st) = rooms st"
  by (cases x) simp_all

lemma rooms_close_ws [simp]: "rooms (close_ws c code reason st) = rooms st"
  by (simp add: close_ws_def Let_def)

lemma rooms_close_opt [simp]: "rooms (close_opt x st) = rooms st"
  by (cases x) simp_all

lemma rooms_enforceRate [simp]: "rooms (snd (enforceRate v ws t st)) = rooms st"
  by (simp add: enforceRate_def Let_def)

lemma registry_ok_rooms: "rooms st' = rooms st \<Longrightarrow> registry_ok st' = registry_ok st"
  by (simp add: registry_ok_def)

lemma registry_ok_update:
  "registry_ok st \<Longrightarrow> truthy rid \<Longrightarrow> rooms st' = AList.update rid rm (rooms st) \<Longrightarrow>
     registry_ok st'"
  by (simp add: registry_ok_def AList.update_keys AList.distinct_update)

lemma registry_ok_delete:
  "registry_ok st \<Longrightarrow> rooms st' = AList.delete rid (rooms st) \<Longrightarrow> registry_ok st'"
  by (auto simp: registry_ok_def AList.delete_keys list_all_iff distinct_removeAll)

lemma registry_ok_key:
  "registry_ok st \<Longrightarrow> map_of (rooms st) rid = Some rm \<Longrightarrow> truthy rid"
  by (auto simp: registry_ok_def list_all_iff dest!: map_of_SomeD)

lemma keys_touchRoom [simp]: "map fst (rooms (touchRoom rid t st)) = map fst (rooms st)"
  by (auto simp: touchRoom_def AList.update_keys map_of_eq_None_iff [symmetric]
      split: option.splits)

lemma registry_ok_touchRoom [simp]: "registry_ok (touchRoom rid t st) = registry_ok st"
  by (simp add: registry_ok_def)

lemma registry_ok_set_room:
  "registry_ok st \<Longrightarrow> truthy rid \<Longrightarrow> registry_ok (set_room rid rm st)"
  by (rule registry_ok_update [where rid = rid and rm = rm]) (simp_all add: set_room_def)

lemma registry_ok_getRoom:
  "registry_ok st \<Longrightarrow> truthy rid \<Longrightarrow> registry_ok (snd (getRoom rid t st))"
  by (auto simp: getRoom_def Let_def split: option.splits
      intro: registry_ok_update [where rid = rid])

lemma registry_ok_send [simp]: "registry_ok (send x m st) = registry_ok st"
  by (rule registry_ok_rooms) simp

lemma registry_ok_socks [simp]: "registry_ok (st\<lparr>socks := f\<rparr>) = registry_ok st"
  by (rule registry_ok_rooms) simp

lemma handle_join_shape:
  assumes "getRoom (mroomId m) t st = (rm, st1)"
    and "rm1 = (if \<not> truthy (token rm) then rm\<lparr>token := mtoken m\<rparr> else rm)"
    and "rm2 = (if mrole m = JStr ''sender'' then rm1\<lparr>sender := Some ws\<rparr> else rm1)"
    and "rm3 = (if mrole m = JStr ''receiver'' then rm2\<lparr>receiver := Some ws\<rparr> else rm2)"
    and "st5 = send (Some ws) (Joined (mroomId m) (mrole m))
                 (touchRoom (mroomId m) t (set_room (mroomId m) rm3
                    ((set_room (mroomId m) rm1 st1)\<lparr>socks := (socks (set_room (mroomId m) rm1 st1))
                       (ws := (socks (set_room (mroomId m) rm1 st1) ws)
                          \<lparr>roomId := mroomId m, role := mrole m\<rparr>)\<rparr>)))"
  shows "handle_join v ws m t st =
     (if \<not> truthy (mroomId m) \<or> \<not> truthy (mtoken m) \<or> \<not> truthy (mrole m)
      then send (Some ws) (ErrorMsg (txt_required v)) st
      else if truthy (token rm) \<and> token rm \<noteq> mtoken m
      then send (Some ws) (ErrorMsg (txt_bad_token v)) st1
      else if mrole m = JStr ''sender'' \<and> sender rm1 \<noteq> None \<and> sender rm1 \<noteq> Some ws
      then send (Some ws) (ErrorMsg (txt_sender_exists v)) (set_room (mroomId m) rm1 st1)
      else if mrole m = JStr ''receiver'' \<and> receiver rm1 \<noteq> None \<and> receiver rm1 \<noteq> Some ws
      then send (Some ws) (ErrorMsg (txt_receiver_exists v)) (set_room (mroomId m) rm1 st1)
      else if length (filter (\<lambda>x. x \<noteq> None) [sender rm1, receiver rm1]) \<ge> MAX_PER_ROOM
              \<and> Some ws \<notin> set [sender rm1, receiver rm1]
      then send (Some ws) (ErrorMsg (txt_room_full v)) (set_room (mroomId m) rm1 st1)
      else if sender rm3 \<noteq> None \<and> receiver rm3 \<noteq> None
      then send (receiver rm3) Ready (send (sender rm3) Ready st5)
      else st5)"
  unfolding assms(2-5) handle_join_def Let_def assms(1) split_conv
  by (rule refl)

lemma registry_ok_handle_join:
  assumes ok: "registry_ok st"
  shows "registry_ok (handle_join v ws m t st)"
proof (cases "truthy (mroomId m)")
  case False
  then show ?thesis using ok by (simp add: handle_join_def Let_def)
next
  case True
  obtain rm st1 where g: "getRoom (mroomId m) t st = (rm, st1)"
    by (cases "getRoom (mroomId m) t st")
  have ok1: "registry_ok st1"
    using registry_ok_getRoom [OF ok True, of t] g by simp
  have ok2: "\<And>r. registry_ok (set_room (mroomId m) r st1)"
    using ok1 True by (rule registry_ok_set_room)
  have ok3: "\<And>r r' f. registry_ok (set_room (mroomId m) r ((set_room (mroomId m) r' st1)\<lparr>socks := f\<rparr>))"
    using ok2 True by (simp add: registry_ok_set_room)
  define rm1 where "rm1 = (if \<not> truthy (token rm) then rm\<lparr>token := mtoken m\<rparr> else rm)"
  define rm2 where "rm2 = (if mrole m = JStr ''sender'' then rm1\<lparr>sender := Some ws\<rparr> else rm1)"
  define rm3 where "rm3 = (if mrole m = JStr ''receiver'' then rm2\<lparr>receiver := Some ws\<rparr> else rm2)"
  show ?thesis
    using ok ok1 ok2 ok3
    by (simp add: handle_join_shape [OF g rm1_def rm2_def rm3_def refl] del: set_room_same)
qed

lemma registry_ok_handle_relay:
  "registry_ok st \<Longrightarrow> registry_ok (handle_relay v ws m t st)"
  by (cases v) (simp_all add: Let_def split: option.splits)

lemma cleanupSocket_noop:
  "\<not> truthy (roomId (socks st ws)) \<or> \<not> truthy (role (socks st ws))
     \<or> map_of (rooms st) (roomId (socks st ws)) = None \<Longrightarrow>
   cleanupSocket ws t st = st"
  by (auto simp: cleanupSocket_def Let_def)

lemma cleanupSocket_shape:
  assumes "truthy (roomId (socks st ws))" "truthy (role (socks st ws))"
    and "map_of (rooms st) (roomId (socks st ws)) = Some rm"
    and "rm1 = (if role (socks st ws) = JStr ''sender'' \<and> sender rm = Some ws
                then rm\<lparr>sender := None\<rparr> else rm)"
    and "rm2 = (if role (socks st ws) = JStr ''receiver'' \<and> receiver rm1 = Some ws
                then rm1\<lparr>receiver := None\<rparr> else rm1)"
    and "st2 = touchRoom (roomId (socks st ws)) t
                 (send (if role (socks st ws) = JStr ''sender'' then receiver rm2 else sender rm2)
                    PeerLeft (set_room (roomId (socks st ws)) rm2 st))"
  shows "cleanupSocket ws t st =
     (if sender rm2 = None \<and> receiver rm2 = None
      then st2\<lparr>rooms := AList.delete (roomId (socks st ws)) (rooms st2)\<rparr>
      else st2)"
  unfolding assms(4-6) cleanupSocket_def Let_def
  using assms(1-3) by simp

lemma registry_ok_cleanupSocket:
  assumes ok: "registry_ok st"
  shows "registry_ok (cleanupSocket ws t st)"
proof (cases "truthy (roomId (socks st ws)) \<and> truthy (role (socks st ws))
               \<and> map_of (rooms st) (roomId (socks st ws)) \<noteq> None")
  case False
  then show ?thesis using ok by (simp add: cleanupSocket_noop)
next
  case True
  then obtain rm where rm: "map_of (rooms st) (roomId (socks st ws)) = Some rm"
    by auto
  define rm1 where "rm1 = (if role (socks st ws) = JStr ''sender'' \<and> sender rm = Some ws
                then rm\<lparr>sender := None\<rparr> else rm)"
  define rm2 where "rm2 = (if role (socks st ws) = JStr ''receiver'' \<and> receiver rm1 = Some ws
                then rm1\<lparr>receiver := None\<rparr> else rm1)"
  define st2 where "st2 = touchRoom (roomId (socks st ws)) t
                 (send (if role (socks st ws) = JStr ''sender'' then receiver rm2 else sender rm2)
                    PeerLeft (set_room (roomId (socks st ws)) rm2 st))"
  have ok2: "registry_ok st2"
    using ok True by (simp add: st2_def registry_ok_set_room del: set_room_same)
  then have "registry_ok (st2\<lparr>rooms := AList.delete (roomId (socks st ws)) (rooms st2)\<rparr>)"
    by (rule registry_ok_delete) simp
  then show ?thesis
    using ok2 True cleanupSocket_shape [OF _ _ rm rm1_def rm2_def st2_def]
    by simp
qed

lemma registry_ok_cleanupStale_loop:
  "registry_ok st \<Longrightarrow> registry_ok (cleanupStale_loop cutoff es st)"
proof (induction es arbitrary: st)
  case Nil
  then show ?case by simp
next
  case (Cons e es)
  obtain rid rm where e: "e = (rid, rm)" by (cases e)
  have "registry_ok (close_opt (receiver rm) (close_opt (sender rm) st)
          \<lparr>rooms := AList.delete rid (rooms (close_opt (receiver rm) (close_opt (sender rm) st)))\<rparr>)"
    using Cons.prems by (rule registry_ok_delete [where rid = rid]) simp
  then show ?case
    using Cons by (simp add: e Let_def)
qed

lemma registry_ok_dispatch:
  "registry_ok st \<Longrightarrow> registry_ok (dispatch v ws m t st)"
  by (simp add: dispatch_def registry_ok_handle_join registry_ok_handle_relay
      registry_ok_cleanupSocket)

lemma registry_ok_on_message:
  "registry_ok st \<Longrightarrow> registry_ok (snd (on_message v ws p t st))"
proof -
  assume ok: "registry_ok st"
  have r: "registry_ok (snd (enforceRate v ws t st))"
    using ok by (simp add: registry_ok_rooms [of "snd (enforceRate v ws t st)" st])
  have c: "\<And>s code reason. registry_ok s \<Longrightarrow> registry_ok (close_ws ws code reason s)"
    by (simp add: registry_ok_rooms [of "close_ws ws _ _ _"])
  show ?thesis
    using ok r c [OF ok] c [OF r] registry_ok_dispatch [OF r]
    by (auto simp: on_message_def split: prod.splits parsed.splits bool.splits)
qed

lemma registry_ok_step: "registry_ok st \<Longrightarrow> registry_ok (step v e st)"
  by (cases e)
     (simp_all add: registry_ok_on_message registry_ok_cleanupSocket cleanupStale_def
        registry_ok_cleanupStale_loop)

lemma registry_ok_reachable: "reachable v st \<Longrightarrow> registry_ok st"
  by (induction rule: reachable.induct)
     (simp_all add: registry_ok_step, simp add: registry_ok_def init_def)

section \<open>The claims about the join branch\<close>

lemma send_open_outbox:
  "readyState (socks st c) = OPEN \<Longrightarrow>
     socks (send (Some c) x st) = (socks st)(c := (socks st c)\<lparr>outbox := outbox (socks st c) @ [x]\<rparr>)"
  by simp

text \<open>
  Claim C2. A join message that reaches the dispatch and names a room whose secret is set
  and differs from the message's token is answered with one \<^verbatim>\<open>error\<close> envelope (the
  bad-token text, or the required-fields text when a field is missing); the registry
  with every room's slots, secret and time, and every connection's \<open>roomId\<close>, \<open>role\<close>,
  state and close log are as before. Only the sender's outbox and timestamps change.
\<close>

theorem join_bad_token_no_change:
  assumes acc: "accepted v ws p t st m"
    and join: "mtype m = JStr ''join''"
    and room: "map_of (rooms st) (mroomId m) = Some rm"
    and secret: "truthy (token rm)" "token rm \<noteq> mtoken m"
    and opn: "readyState (socks st ws) = OPEN"
  shows "\<exists>st'. on_message v ws p t st = (None, st') \<and>
           rooms st' = rooms st \<and>
           (\<forall>c. binding st' c = binding st c
                \<and> readyState (socks st' c) = readyState (socks st c)
                \<and> closeCalls (socks st' c) = closeCalls (socks st c)) \<and>
           (\<forall>c. c \<noteq> ws \<longrightarrow> outbox (socks st' c) = outbox (socks st c)) \<and>
           outbox (socks st' ws) = outbox (socks st ws) @
             [ErrorMsg (if truthy (mroomId m) \<and> truthy (mtoken m) \<and> truthy (mrole m)
                        then txt_bad_token v else txt_required v)]"
proof -
  let ?st1 = "after_rate ws t st"
  let ?e = "if truthy (mroomId m) \<and> truthy (mtoken m) \<and> truthy (mrole m)
            then txt_bad_token v else txt_required v"
  have "dispatch v ws m t ?st1 = send (Some ws) (ErrorMsg ?e) ?st1"
    using join handle_join_bad_token [of ?st1 m rm v ws t] room secret
    by (simp add: dispatch_def)
  then have "on_message v ws p t st = (None, send (Some ws) (ErrorMsg ?e) ?st1)"
    using on_message_accepted [OF acc] by simp
  then show ?thesis using opn by (simp add: binding_def)
qed

theorem join_bad_token_no_change_witness:
  "outbox (socks (snd (on_message Deno 3 (text_payload (join_env ''r1'' ''x'' ''receiver'')) 5
      alone_state)) 3) = [ErrorMsg ''bad token''] \<and>
   rooms (snd (on_message Deno 3 (text_payload (join_env ''r1'' ''x'' ''receiver'')) 5
      alone_state)) = rooms alone_state"
proof -
  let ?m = "join_env ''r1'' ''x'' ''receiver''"
  have acc: "accepted Deno 3 (text_payload ?m) 5 alone_state ?m"
    by (simp add: example_defs alone_state_def)
  have join: "mtype ?m = JStr ''join''"
    by (simp add: join_env_def)
  have room: "map_of (rooms alone_state) (mroomId ?m) =
      Some \<lparr>sender = Some 1, receiver = None, token = JStr ''t'', touchedAt = 0\<rparr>"
    by (simp add: join_env_def alone_state_def)
  have opn: "readyState (socks alone_state 3) = OPEN"
    by (simp add: alone_state_def fresh_socket_def)
  from join_bad_token_no_change [OF acc join room _ _ opn]
  show ?thesis
    by (auto simp: join_env_def alone_state_def fresh_socket_def)
qed

text \<open>
  Claim C4, as the code has it. A join message with the room's token, sent by a third
  connection to a room whose two slots are held by other connections, is answered with
  one \<^verbatim>\<open>error\<close> envelope and changes neither the registry nor any binding. The text
  is the sender-exists text for the role \<^verbatim>\<open>sender\<close>, the receiver-exists text for the
  role \<^verbatim>\<open>receiver\<close>, and the room-full text only for any other role.
\<close>

theorem join_occupied_room_rejected:
  assumes acc: "accepted v ws p t st m"
    and join: "mtype m = JStr ''join''"
    and fields: "truthy (mroomId m)" "truthy (mtoken m)" "truthy (mrole m)"
    and room: "map_of (rooms st) (mroomId m) = Some rm"
    and tok: "token rm = mtoken m"
    and occ: "sender rm = Some a" "receiver rm = Some b" "a \<noteq> ws" "b \<noteq> ws"
    and opn: "readyState (socks st ws) = OPEN"
  shows "\<exists>st'. on_message v ws p t st = (None, st') \<and>
           rooms st' = rooms st \<and>
           (\<forall>c. c \<noteq> ws \<longrightarrow> socks st' c = socks st c) \<and>
           binding st' ws = binding st ws \<and>
           outbox (socks st' ws) = outbox (socks st ws) @
             [ErrorMsg (if mrole m = JStr ''sender'' then txt_sender_exists v
                        else if mrole m = JStr ''receiver'' then txt_receiver_exists v
                        else txt_room_full v)]"
proof -
  let ?st1 = "after_rate ws t st"
  let ?e = "if mrole m = JStr ''sender'' then txt_sender_exists v
            else if mrole m = JStr ''receiver'' then txt_receiver_exists v
            else txt_room_full v"
  have "dispatch v ws m t ?st1 = send (Some ws) (ErrorMsg ?e) ?st1"
    using join handle_join_full_room [of m ?st1 rm a b ws v t] fields room tok occ
    by (simp add: dispatch_def)
  then have "on_message v ws p t st = (None, send (Some ws) (ErrorMsg ?e) ?st1)"
    using on_message_accepted [OF acc] by simp
  then show ?thesis using opn by (simp add: binding_def)
qed

theorem join_occupied_room_rejected_witness:
  "outbox (socks (snd (on_message Node 3 (text_payload (join_env ''r1'' ''t'' ''observer'')) 5
      paired_state)) 3) = [ErrorMsg ''Room full''] \<and>
   rooms (snd (on_message Node 3 (text_payload (join_env ''r1'' ''t'' ''observer'')) 5
      paired_state)) = rooms paired_state"
proof -
  let ?m = "join_env ''r1'' ''t'' ''observer''"
  have acc: "accepted Node 3 (text_payload ?m) 5 paired_state ?m"
    by (simp add: example_defs paired_state_def)
  have join: "mtype ?m = JStr ''join''"
    and fields: "truthy (mroomId ?m)" "truthy (mtoken ?m)" "truthy (mrole ?m)"
    by (simp_all add: join_env_def)
  have room: "map_of (rooms paired_state) (mroomId ?m) =
      Some \<lparr>sender = Some 1, receiver = Some 2, token = JStr ''t'', touchedAt = 1\<rparr>"
    by (simp add: join_env_def paired_state_def)
  have opn: "readyState (socks paired_state 3) = OPEN"
    by (simp add: paired_state_def fresh_socket_def)
  from join_occupied_room_rejected [OF acc join fields room _ _ _ _ _ opn, of 1 2]
  show ?thesis
    by (auto simp: join_env_def paired_state_def fresh_socket_def)
qed

theorem room_full_counterexample:
  "outbox (socks (run Deno
      [Message 1 (text_payload (join_env ''r1'' ''t'' ''sender'')) 0,
       Message 2 (text_payload (join_env ''r1'' ''t'' ''receiver'')) 1,
       Message 3 (text_payload (join_env ''r1'' ''t'' ''sender'')) 2] init) 3)
   = [ErrorMsg ''sender exists'']"
proof -
  let ?m = "join_env ''r1'' ''t'' ''sender''"
  have acc: "accepted Deno 3 (text_payload ?m) 2 paired_state ?m"
    by (simp add: example_defs paired_state_def)
  have "handle_join Deno 3 ?m 2 (after_rate 3 2 paired_state) =
          send (Some 3) (ErrorMsg ''sender exists'') (after_rate 3 2 paired_state)"
    using handle_join_full_room [of ?m "after_rate 3 2 paired_state"
        "\<lparr>sender = Some 1, receiver = Some 2, token = JStr ''t'', touchedAt = 1\<rparr>" 1 2 3 Deno 2]
    by (simp add: join_env_def paired_state_def)
  then have "step Deno (Message 3 (text_payload ?m) 2) paired_state =
          send (Some 3) (ErrorMsg ''sender exists'') (after_rate 3 2 paired_state)"
    by (simp only: step.simps on_message_accepted [OF acc] snd_conv)
       (simp add: dispatch_def join_env_def)
  then show ?thesis
    by (simp only: run.simps alone_reached paired_reached)
       (simp add: paired_state_def fresh_socket_def)
qed

text \<open>
  Claim C8, as the code has it. When a connection that holds a slot of a room, and is
  bound to that room and role, sends the same join again with the room's token, the
  server answers \<^verbatim>\<open>joined\<close>; the slots, the secret, the registered ids and every
  binding stay as they were. The room's activity time is set to the time of the message,
  and when both slots are occupied \<^verbatim>\<open>ready\<close> is sent once more to the sender and to
  the receiver of the room.
\<close>

theorem rejoin_same_role:
  assumes acc: "accepted v ws p t st m"
    and join: "mtype m = JStr ''join''"
    and fields: "truthy (mroomId m)" "truthy (mtoken m)"
    and rl: "mrole m = JStr ''sender'' \<or> mrole m = JStr ''receiver''"
    and room: "map_of (rooms st) (mroomId m) = Some rm"
    and tok: "token rm = mtoken m"
    and mine: "slot (mrole m) rm = Some ws"
    and bound: "binding st ws = (mroomId m, mrole m)"
    and opn: "readyState (socks st ws) = OPEN"
  shows "\<exists>st'. on_message v ws p t st = (None, st') \<and>
           rooms st' = AList.update (mroomId m) (rm\<lparr>touchedAt := t\<rparr>) (rooms st) \<and>
           (\<forall>c. binding st' c = binding st c
                \<and> readyState (socks st' c) = readyState (socks st c)
                \<and> closeCalls (socks st' c) = closeCalls (socks st c)) \<and>
           (\<forall>c. outbox (socks st' c) = outbox (socks st c)
                @ (if c = ws then [Joined (mroomId m) (mrole m)] else [])
                @ (if sender rm \<noteq> None \<and> receiver rm \<noteq> None \<and> sender rm = Some c
                      \<and> readyState (socks st c) = OPEN then [Ready] else [])
                @ (if sender rm \<noteq> None \<and> receiver rm \<noteq> None \<and> receiver rm = Some c
                      \<and> readyState (socks st c) = OPEN then [Ready] else []))"
proof -
  let ?st1 = "after_rate ws t st"
  let ?st5 = "send (Some ws) (Joined (mroomId m) (mrole m))
                (?st1\<lparr>socks := (socks ?st1)
                    (ws := (socks ?st1 ws)\<lparr>roomId := mroomId m, role := mrole m\<rparr>),
                  rooms := AList.update (mroomId m) (rm\<lparr>touchedAt := t\<rparr>) (rooms ?st1)\<rparr>)"
  have same: "(socks st ws)\<lparr>roomId := mroomId m, role := mrole m\<rparr> = socks st ws"
    using bound by (simp add: binding_def)
  have "dispatch v ws m t ?st1 =
          (if sender rm \<noteq> None \<and> receiver rm \<noteq> None
           then send (receiver rm) Ready (send (sender rm) Ready ?st5) else ?st5)"
    using join handle_join_rejoin [of m ?st1 rm ws v t] fields rl room tok mine
    by (simp add: dispatch_def Let_def)
  then have res: "on_message v ws p t st =
          (None, if sender rm \<noteq> None \<and> receiver rm \<noteq> None
                 then send (receiver rm) Ready (send (sender rm) Ready ?st5) else ?st5)"
    using on_message_accepted [OF acc] by simp
  show ?thesis
  proof (cases "sender rm")
    case None
    then show ?thesis
      using res opn same by (simp add: binding_def)
  next
    case (Some a)
    note a = this
    show ?thesis
    proof (cases "receiver rm")
      case None
      then show ?thesis
        using res opn same a by (simp add: binding_def)
    next
      case (Some b)
      then show ?thesis
        using res opn same a by (auto simp: binding_def)
    qed
  qed
qed

theorem rejoin_same_role_witness:
  "outbox (socks (snd (on_message Deno 1 (text_payload (join_env ''r1'' ''t'' ''sender'')) 5
      alone_state)) 1) =
     [Joined (JStr ''r1'') (JStr ''sender''), Joined (JStr ''r1'') (JStr ''sender'')] \<and>
   map_of (rooms (snd (on_message Deno 1 (text_payload (join_env ''r1'' ''t'' ''sender'')) 5
      alone_state))) (JStr ''r1'') =
     Some \<lparr>sender = Some 1, receiver = None, token = JStr ''t'', touchedAt = 5\<rparr>"
proof -
  let ?m = "join_env ''r1'' ''t'' ''sender''"
  let ?rm = "\<lparr>sender = Some 1, receiver = None, token = JStr ''t'', touchedAt = 0\<rparr>"
  have acc: "accepted Deno 1 (text_payload ?m) 5 alone_state ?m"
    by (simp add: example_defs alone_state_def)
  have join: "mtype ?m = JStr ''join''"
    and fields: "truthy (mroomId ?m)" "truthy (mtoken ?m)"
    and rl: "mrole ?m = JStr ''sender'' \<or> mrole ?m = JStr ''receiver''"
    by (simp_all add: join_env_def)
  have room: "map_of (rooms alone_state) (mroomId ?m) = Some ?rm"
    by (simp add: join_env_def alone_state_def)
  have tok: "token ?rm = mtoken ?m" and mine: "slot (mrole ?m) ?rm = Some 1"
    by (simp_all add: join_env_def slot_def)
  have bound: "binding alone_state 1 = (mroomId ?m, mrole ?m)"
    by (simp add: join_env_def alone_state_def binding_def)
  have opn: "readyState (socks alone_state 1) = OPEN"
    by (simp add: alone_state_def)
  from rejoin_same_role [OF acc join fields rl room tok mine bound opn]
  show ?thesis
    by (auto simp: join_env_def alone_state_def)
qed

theorem rejoin_ready_again_counterexample:
  "outbox (socks (run Deno
      [Message 1 (text_payload (join_env ''r1'' ''t'' ''sender'')) 0,
       Message 2 (text_payload (join_env ''r1'' ''t'' ''receiver'')) 1] init) 2)
     = [Joined (JStr ''r1'') (JStr ''receiver''), Ready] \<and>
   outbox (socks (run Deno
      [Message 1 (text_payload (join_env ''r1'' ''t'' ''sender'')) 0,
       Message 2 (text_payload (join_env ''r1'' ''t'' ''receiver'')) 1,
       Message 1 (text_payload (join_env ''r1'' ''t'' ''sender'')) 2] init) 2)
     = [Joined (JStr ''r1'') (JStr ''receiver''), Ready, Ready]"
proof -
  let ?m = "join_env ''r1'' ''t'' ''sender''"
  let ?rm = "\<lparr>sender = Some 1, receiver = Some 2, token = JStr ''t'', touchedAt = 1\<rparr>"
  have acc: "accepted Deno 1 (text_payload ?m) 2 paired_state ?m"
    by (simp add: example_defs paired_state_def)
  have "outbox (socks (handle_join Deno 1 ?m 2 (after_rate 1 2 paired_state)) 2) =
          [Joined (JStr ''r1'') (JStr ''receiver''), Ready, Ready]"
    using handle_join_rejoin [of ?m "after_rate 1 2 paired_state" ?rm 1 Deno 2]
    by (simp add: join_env_def paired_state_def slot_def)
  then have "outbox (socks (step Deno (Message 1 (text_payload ?m) 2) paired_state) 2) =
          [Joined (JStr ''r1'') (JStr ''receiver''), Ready, Ready]"
    by (simp only: step.simps on_message_accepted [OF acc] snd_conv)
       (simp add: dispatch_def join_env_def)
  then show ?thesis
    by (simp only: run.simps alone_reached paired_reached)
       (simp add: paired_state_def)
qed

section \<open>The claims about the relay branch\<close>

lemma holds_unique:
  assumes ok: "registry_ok st"
    and "holds st c rid rl" "holds st c' rid rl"
  shows "c = c'"
proof -
  from assms(2) obtain rm where 1: "(rid, rm) \<in> set (rooms st)" "slot rl rm = Some c"
    by (auto simp: holds_def list_ex_iff)
  from assms(3) obtain rm' where 2: "(rid, rm') \<in> set (rooms st)" "slot rl rm' = Some c'"
    by (auto simp: holds_def list_ex_iff)
  from ok have "distinct (map fst (rooms st))"
    by (simp add: registry_ok_def)
  then have "rm = rm'"
    using 1(1) 2(1) by (rule eq_key_imp_eq_value)
  with 1(2) 2(2) show ?thesis by simp
qed

lemma no_undefined_room:
  assumes "registry_ok st"
  shows "map_of (rooms st) JUndefined = None"
proof (cases "map_of (rooms st) JUndefined")
  case None
  then show ?thesis .
next
  case (Some rm)
  with assms have "truthy JUndefined" by (rule registry_ok_key)
  then show ?thesis by simp
qed

text \<open>
  Claim C6, as the code has it. An \<^verbatim>\<open>offer\<close>, \<^verbatim>\<open>answer\<close> or \<^verbatim>\<open>ice\<close> message on a
  connection that no join has bound is answered with one \<^verbatim>\<open>error\<close> envelope, and
  nothing is written to any other connection; the registry is unchanged. The Node server
  answers \<^verbatim>\<open>Join first\<close>. The Deno server has no check of its own for this case: it
  finds no room under the connection's undefined \<open>roomId\<close> and answers \<^verbatim>\<open>no room\<close>.
\<close>

theorem relay_before_join:
  assumes reach: "reachable v st"
    and acc: "accepted v ws p t st m"
    and ty: "is_relay_type (mtype m)"
    and fresh: "binding st ws = (JUndefined, JUndefined)"
    and opn: "readyState (socks st ws) = OPEN"
  shows "\<exists>st'. on_message v ws p t st = (None, st') \<and>
           rooms st' = rooms st \<and>
           (\<forall>c. c \<noteq> ws \<longrightarrow> socks st' c = socks st c) \<and>
           outbox (socks st' ws) = outbox (socks st ws) @
             [ErrorMsg (case v of Node \<Rightarrow> ''Join first'' | Deno \<Rightarrow> ''no room'')]"
proof -
  let ?st1 = "after_rate ws t st"
  let ?e = "case v of Node \<Rightarrow> ''Join first'' | Deno \<Rightarrow> ''no room''"
  have none: "map_of (rooms st) JUndefined = None"
    using registry_ok_reachable [OF reach] by (rule no_undefined_room)
  have nojoin: "mtype m \<noteq> JStr ''join''"
    using ty by (auto simp: is_relay_type_def)
  have "dispatch v ws m t ?st1 = send (Some ws) (ErrorMsg ?e) ?st1"
    using ty nojoin handle_relay_unjoined [of ?st1 ws v m t] fresh none
    by (simp add: dispatch_def binding_def)
  then have "on_message v ws p t st = (None, send (Some ws) (ErrorMsg ?e) ?st1)"
    using on_message_accepted [OF acc] by simp
  then show ?thesis using opn by simp
qed

theorem relay_before_join_witness:
  "outbox (socks (snd (on_message Node 2 (text_payload offer_env) 5 alone_state)) 2)
     = [ErrorMsg ''Join first''] \<and>
   socks (snd (on_message Node 2 (text_payload offer_env) 5 alone_state)) 1 = socks alone_state 1"
proof -
  have reach: "reachable Node alone_state"
    using reachable_step [OF reachable_init, of Node
        "Message 1 (text_payload (join_env ''r1'' ''t'' ''sender'')) 0"]
    by (simp only: alone_reached)
  have acc: "accepted Node 2 (text_payload offer_env) 5 alone_state offer_env"
    by (simp add: example_defs alone_state_def)
  have ty: "is_relay_type (mtype offer_env)"
    by (simp add: offer_env_def is_relay_type_def)
  have fresh: "binding alone_state 2 = (JUndefined, JUndefined)"
    by (simp add: alone_state_def binding_def fresh_socket_def)
  have opn: "readyState (socks alone_state 2) = OPEN"
    by (simp add: alone_state_def fresh_socket_def)
  from relay_before_join [OF reach acc ty fresh opn]
  show ?thesis
    by (auto simp: alone_state_def fresh_socket_def)
qed

theorem relay_before_join_counterexample:
  "outbox (socks (run Deno [Message 1 (text_payload offer_env) 0] init) 1)
     = [ErrorMsg ''no room'']"
proof -
  have acc: "accepted Deno 1 (text_payload offer_env) 0 init offer_env"
    by (simp add: example_defs init_def)
  show ?thesis
    by (simp only: run.simps step.simps on_message_accepted [OF acc] snd_conv)
       (simp add: dispatch_def offer_env_def is_relay_type_def init_def fresh_socket_def)
qed

text \<open>
  The Node server checks the peer: a relayed message of a joined connection whose target
  slot holds no open socket is answered with \<^verbatim>\<open>Peer not connected\<close>, and nothing else
  in the state changes, so nothing is kept for later delivery.
\<close>

lemma node_relay_without_peer:
  assumes acc: "accepted Node ws p t st m"
    and ty: "is_relay_type (mtype m)"
    and joined: "truthy (roomId (socks st ws))" "truthy (role (socks st ws))"
    and room: "map_of (rooms st) (roomId (socks st ws)) = Some rm"
    and nopeer: "\<forall>q. (if role (socks st ws) = JStr ''sender'' then receiver rm else sender rm)
                     = Some q \<longrightarrow> readyState (socks st q) \<noteq> OPEN"
  shows "on_message Node ws p t st =
           (None, send (Some ws) (ErrorMsg ''Peer not connected'') (after_rate ws t st))"
proof -
  have nojoin: "mtype m \<noteq> JStr ''join''"
    using ty by (auto simp: is_relay_type_def)
  have "dispatch Node ws m t (after_rate ws t st) =
          send (Some ws) (ErrorMsg ''Peer not connected'') (after_rate ws t st)"
    using ty nojoin handle_relay_Node_no_peer [of "after_rate ws t st" ws rm m t]
      joined room nopeer
    by (simp add: dispatch_def)
  then show ?thesis
    using on_message_accepted [OF acc] by simp
qed

text \<open>
  Claim C5 fails on the Deno server. Connection 1 has joined room \<open>r1\<close> as sender and
  no receiver has joined; its \<^verbatim>\<open>offer\<close> gets no answer from the Deno server, where
  the Node server answers \<^verbatim>\<open>Peer not connected\<close>.
\<close>

theorem deno_relay_without_peer_silent:
  "outbox (socks (run Deno
      [Message 1 (text_payload (join_env ''r1'' ''t'' ''sender'')) 0,
       Message 1 (text_payload offer_env) 1] init) 1)
     = [Joined (JStr ''r1'') (JStr ''sender'')] \<and>
   outbox (socks (run Node
      [Message 1 (text_payload (join_env ''r1'' ''t'' ''sender'')) 0,
       Message 1 (text_payload offer_env) 1] init) 1)
     = [Joined (JStr ''r1'') (JStr ''sender''), ErrorMsg ''Peer not connected'']"
proof -
  have acc: "accepted v 1 (text_payload offer_env) 1 alone_state offer_env" for v
    by (cases v) (simp_all add: example_defs alone_state_def)
  have d: "outbox (socks (step Deno (Message 1 (text_payload offer_env) 1) alone_state) 1)
             = [Joined (JStr ''r1'') (JStr ''sender'')]"
    by (simp only: step.simps on_message_accepted [OF acc] snd_conv)
       (simp add: dispatch_def offer_env_def is_relay_type_def alone_state_def touchRoom_def)
  have n: "outbox (socks (step Node (Message 1 (text_payload offer_env) 1) alone_state) 1)
             = [Joined (JStr ''r1'') (JStr ''sender''), ErrorMsg ''Peer not connected'']"
    by (simp only: step.simps on_message_accepted [OF acc] snd_conv)
       (simp add: dispatch_def offer_env_def is_relay_type_def alone_state_def Let_def)
  show ?thesis
    using d n by (simp only: run.simps alone_reached)
qed

section \<open>Cleanup\<close>

lemma left_reached:
  "step v (Message 1 (text_payload leave_env) 2) paired_state = left_state"
proof -
  have acc: "accepted v 1 (text_payload leave_env) 2 paired_state leave_env"
    by (cases v) (simp_all add: example_defs paired_state_def)
  show ?thesis
    by (simp only: step.simps on_message_accepted [OF acc] snd_conv)
       (simp add: leave_env_def paired_state_def left_state_def after_rate_def window_of_def
          fresh_socket_def dispatch_def is_relay_type_def cleanupSocket_def set_room_def
          touchRoom_def RATE_LIMIT_WINDOW_MS_def Let_def)
qed

text \<open>
  \<^verbatim>\<open>cleanupSocket\<close> leaves \<open>roomId\<close> and \<open>role\<close> on the connection, and only the
  clearing of the slot is guarded: a second run for the same connection, while the room
  is still registered, writes \<^verbatim>\<open>peer-left\<close> to the other occupant again.
\<close>

lemma cleanupSocket_twice_differs:
  "outbox (socks (cleanupSocket 1 2 paired_state) 2)
     = [Joined (JStr ''r1'') (JStr ''receiver''), Ready, PeerLeft]"
  "outbox (socks (cleanupSocket 1 2 (cleanupSocket 1 2 paired_state)) 2)
     = [Joined (JStr ''r1'') (JStr ''receiver''), Ready, PeerLeft, PeerLeft]"
  by (simp_all add: paired_state_def cleanupSocket_def set_room_def touchRoom_def Let_def)

text \<open>
  Claim C7 fails on both servers. Connections 1 and 2 are paired in room \<open>r1\<close>;
  connection 1 sends \<^verbatim>\<open>leave\<close> and then its socket closes, so that \<^verbatim>\<open>cleanupSocket\<close>
  runs twice for it. The first run empties its slot and writes \<^verbatim>\<open>peer-left\<close> to
  connection 2; the second run finds the room still registered and writes a second
  \<^verbatim>\<open>peer-left\<close> to connection 2.
\<close>

theorem cleanup_twice_notifies_twice:
  "outbox (socks (run Node
      [Message 1 (text_payload (join_env ''r1'' ''t'' ''sender'')) 0,
       Message 2 (text_payload (join_env ''r1'' ''t'' ''receiver'')) 1,
       Message 1 (text_payload leave_env) 2] init) 2)
     = [Joined (JStr ''r1'') (JStr ''receiver''), Ready, PeerLeft] \<and>
   outbox (socks (run Node
      [Message 1 (text_payload (join_env ''r1'' ''t'' ''sender'')) 0,
       Message 2 (text_payload (join_env ''r1'' ''t'' ''receiver'')) 1,
       Message 1 (text_payload leave_env) 2,
       SockClose 1 3] init) 2)
     = [Joined (JStr ''r1'') (JStr ''receiver''), Ready, PeerLeft, PeerLeft] \<and>
   outbox (socks (run Deno
      [Message 1 (text_payload (join_env ''r1'' ''t'' ''sender'')) 0,
       Message 2 (text_payload (join_env ''r1'' ''t'' ''receiver'')) 1,
       Message 1 (text_payload leave_env) 2,
       SockClose 1 3] init) 2)
     = [Joined (JStr ''r1'') (JStr ''receiver''), Ready, PeerLeft, PeerLeft]"
proof -
  have twice: "outbox (socks (step v (SockClose 1 3) left_state) 2) =
      [Joined (JStr ''r1'') (JStr ''receiver''), Ready, PeerLeft, PeerLeft]" for v
    by (simp add: left_state_def cleanupSocket_def set_room_def touchRoom_def Let_def)
  have once: "outbox (socks left_state 2) =
      [Joined (JStr ''r1'') (JStr ''receiver''), Ready, PeerLeft]"
    by (simp add: left_state_def)
  show ?thesis
    using twice once
    by (simp only: run.simps alone_reached paired_reached left_reached)
qed

section \<open>Slots in reachable states\<close>

lemma occupied_le_2: "occupied rm \<in> {0, 1, 2}"
  by (cases "sender rm"; cases "receiver rm") (simp_all add: occupied_def)

text \<open>
  The slots themselves are single: in every state the server can reach, every
  registered room has zero, one or two occupied slots, each room id is registered once,
  and so at most one connection is in a given slot of a given room.
\<close>

lemma one_connection_per_slot:
  assumes "reachable v st"
  shows "(\<forall>(rid, rm) \<in> set (rooms st). occupied rm \<in> {0, 1, 2}) \<and>
         (\<forall>c c' rid rl. holds st c rid rl \<and> holds st c' rid rl \<longrightarrow> c = c')"
  using holds_unique [OF registry_ok_reachable [OF assms]] occupied_le_2
  by blast

text \<open>
  The join branch does protect a slot: a join for a role whose slot another connection
  holds is rejected, and nothing but the joiner's outbox changes.
\<close>

lemma handle_join_slot_taken:
  assumes fields: "truthy (mroomId m)" "truthy (mtoken m)"
    and rl: "mrole m = JStr ''sender'' \<or> mrole m = JStr ''receiver''"
    and room: "map_of (rooms st) (mroomId m) = Some rm"
    and tok: "token rm = mtoken m"
    and taken: "slot (mrole m) rm = Some a" "a \<noteq> ws"
  shows "handle_join v ws m t st =
     send (Some ws) (ErrorMsg (if mrole m = JStr ''sender'' then txt_sender_exists v
                               else txt_receiver_exists v)) st"
proof (cases "mrole m = JStr ''sender''")
  case True
  then have "sender rm = Some a"
    using taken by (simp add: slot_def)
  then show ?thesis
    using fields room tok True taken(2)
    by (simp add: handle_join_def getRoom_def Let_def)
next
  case False
  then have r: "mrole m = JStr ''receiver''"
    using rl by simp
  then have "receiver rm = Some a"
    using taken by (simp add: slot_def)
  then show ?thesis
    using fields room tok r taken(2)
    by (simp add: handle_join_def getRoom_def Let_def)
qed

section \<open>The fields attached to a connection\<close>

lemma socks_touchRoom [simp]: "socks (touchRoom rid t st) = socks st"
  by (simp add: touchRoom_def split: option.splits)

lemma socks_set_room [simp]: "socks (set_room rid rm st) = socks st"
  by (simp add: set_room_def)

lemma socks_getRoom [simp]: "socks (snd (getRoom rid t st)) = socks st"
  by (simp add: getRoom_def Let_def split: option.splits)

lemma binding_socks: "socks st' = socks st \<Longrightarrow> binding st' c = binding st c"
  by (simp add: binding_def)

lemma binding_send [simp]: "binding (send x m st) c = binding st c"
  by (cases x) (simp_all add: binding_def)

lemma binding_close_ws [simp]: "binding (close_ws ws code reason st) c = binding st c"
  by (simp add: binding_def close_ws_def Let_def)

lemma binding_close_opt [simp]: "binding (close_opt x st) c = binding st c"
  by (cases x) simp_all

lemma binding_rooms_update [simp]: "binding (st\<lparr>rooms := r\<rparr>) c = binding st c"
  by (simp add: binding_def)

lemma binding_touchRoom [simp]: "binding (touchRoom rid t st) c = binding st c"
  by (rule binding_socks) simp

lemma binding_set_room [simp]: "binding (set_room rid rm st) c = binding st c"
  by (rule binding_socks) simp

lemma binding_enforceRate [simp]: "binding (snd (enforceRate v ws t st)) c = binding st c"
  by (simp add: enforceRate_def Let_def binding_def close_ws_def)

lemma binding_cleanupSocket [simp]: "binding (cleanupSocket ws t st) c = binding st c"
proof (cases "truthy (roomId (socks st ws)) \<and> truthy (role (socks st ws))
               \<and> map_of (rooms st) (roomId (socks st ws)) \<noteq> None")
  case False
  then show ?thesis by (simp add: cleanupSocket_noop)
next
  case True
  then obtain rm where rm: "map_of (rooms st) (roomId (socks st ws)) = Some rm"
    by auto
  show ?thesis
    using True cleanupSocket_shape [OF _ _ rm refl refl refl, of t]
    by (simp del: set_room_same)
qed

lemma binding_cleanupStale_loop [simp]:
  "binding (cleanupStale_loop cutoff es st) c = binding st c"
  by (induction es arbitrary: st) (auto simp: Let_def)

lemma binding_handle_relay [simp]: "binding (handle_relay v ws m t st) c = binding st c"
  by (cases v) (simp_all add: Let_def split: option.splits del: send.simps)

lemma binding_handle_join:
  "binding (handle_join v ws m t st) c = binding st c \<or>
   (c = ws \<and> truthy (mroomId m) \<and> truthy (mtoken m) \<and> truthy (mrole m) \<and>
    binding (handle_join v ws m t st) c = (mroomId m, mrole m))"
proof -
  obtain rm st1 where g: "getRoom (mroomId m) t st = (rm, st1)"
    by (cases "getRoom (mroomId m) t st")
  then have s1: "socks st1 = socks st"
    using socks_getRoom [of "mroomId m" t st] by simp
  define rm1 where "rm1 = (if \<not> truthy (token rm) then rm\<lparr>token := mtoken m\<rparr> else rm)"
  define rm2 where "rm2 = (if mrole m = JStr ''sender'' then rm1\<lparr>sender := Some ws\<rparr> else rm1)"
  define rm3 where "rm3 = (if mrole m = JStr ''receiver'' then rm2\<lparr>receiver := Some ws\<rparr> else rm2)"
  have b1: "binding st1 c = binding st c"
    using s1 by (rule binding_socks)
  show ?thesis
    using b1 s1
    by (simp add: handle_join_shape [OF g rm1_def rm2_def rm3_def refl] del: set_room_same)
       (simp add: binding_def)
qed

lemma getRoom_cases:
  assumes "getRoom rid t st = (rm, st1)"
  shows "(map_of (rooms st) rid = None \<and> sender rm = None \<and> receiver rm = None
            \<and> token rm = JNull) \<or>
         map_of (rooms st) rid = Some rm"
  using assms by (auto simp: getRoom_def Let_def split: option.splits)

lemma handle_join_admitted:
  assumes adm: "admits ws m st"
  shows "binding (handle_join v ws m t st) ws = (mroomId m, mrole m) \<and>
         (readyState (socks st ws) = OPEN \<longrightarrow>
            (\<exists>more. outbox (socks (handle_join v ws m t st) ws) =
               outbox (socks st ws) @ Joined (mroomId m) (mrole m) # more))"
proof -
  obtain rm st1 where g: "getRoom (mroomId m) t st = (rm, st1)"
    by (cases "getRoom (mroomId m) t st")
  have s1: "socks st1 = socks st"
    using socks_getRoom [of "mroomId m" t st] g by simp
  define rm1 where "rm1 = (if \<not> truthy (token rm) then rm\<lparr>token := mtoken m\<rparr> else rm)"
  define rm2 where "rm2 = (if mrole m = JStr ''sender'' then rm1\<lparr>sender := Some ws\<rparr> else rm1)"
  define rm3 where "rm3 = (if mrole m = JStr ''receiver'' then rm2\<lparr>receiver := Some ws\<rparr> else rm2)"
  define st2 where "st2 = set_room (mroomId m) rm1 st1"
  define st4 where "st4 = touchRoom (mroomId m) t (set_room (mroomId m) rm3
      (st2\<lparr>socks := (socks st2)(ws := (socks st2 ws)\<lparr>roomId := mroomId m, role := mrole m\<rparr>)\<rparr>))"
  define st5 where "st5 = send (Some ws) (Joined (mroomId m) (mrole m)) st4"
  have fields: "truthy (mroomId m)" "truthy (mtoken m)" "truthy (mrole m)"
    using adm by (simp_all add: admits_def)
  have slots1: "sender rm1 = sender rm" "receiver rm1 = receiver rm"
    by (simp_all add: rm1_def)
  consider (fresh) "sender rm = None" "receiver rm = None" "token rm = JNull"
    | (old) "map_of (rooms st) (mroomId m) = Some rm"
    using getRoom_cases [OF g] by auto
  then have cs: "(\<not> (truthy (token rm) \<and> token rm \<noteq> mtoken m)) \<and>
      (\<not> (mrole m = JStr ''sender'' \<and> sender rm1 \<noteq> None \<and> sender rm1 \<noteq> Some ws)) \<and>
      (\<not> (mrole m = JStr ''receiver'' \<and> receiver rm1 \<noteq> None \<and> receiver rm1 \<noteq> Some ws)) \<and>
      (\<not> (length (filter (\<lambda>x. x \<noteq> None) [sender rm1, receiver rm1]) \<ge> MAX_PER_ROOM
                \<and> Some ws \<notin> set [sender rm1, receiver rm1]))"
  proof cases
    case fresh
    then show ?thesis
      by (simp add: slots1 MAX_PER_ROOM_def)
  next
    case old
    show ?thesis
      using adm unfolding slots1
      by (simp only: admits_def old option.case) blast
  qed
  then have c2: "\<not> (truthy (token rm) \<and> token rm \<noteq> mtoken m)"
    and c3: "\<not> (mrole m = JStr ''sender'' \<and> sender rm1 \<noteq> None \<and> sender rm1 \<noteq> Some ws)"
    and c4: "\<not> (mrole m = JStr ''receiver'' \<and> receiver rm1 \<noteq> None \<and> receiver rm1 \<noteq> Some ws)"
    and c5: "\<not> (length (filter (\<lambda>x. x \<noteq> None) [sender rm1, receiver rm1]) \<ge> MAX_PER_ROOM
                \<and> Some ws \<notin> set [sender rm1, receiver rm1])"
    by blast+
  have shape: "handle_join v ws m t st =
      (if sender rm3 \<noteq> None \<and> receiver rm3 \<noteq> None
       then send (receiver rm3) Ready (send (sender rm3) Ready st5)
       else st5)"
    unfolding st2_def st4_def st5_def
    using fields c2 c3 c4 c5
    by (simp only: handle_join_shape [OF g rm1_def rm2_def rm3_def refl] simp_thms if_False if_True)
  have b4: "binding st4 ws = (mroomId m, mrole m)"
    by (simp add: st4_def st2_def binding_def del: set_room_same)
  have b5: "binding st5 ws = (mroomId m, mrole m)"
    using b4 by (simp add: st5_def del: send.simps)
  have o4: "outbox (socks st4 ws) = outbox (socks st ws)"
      and r4: "readyState (socks st4 ws) = readyState (socks st ws)"
    using s1 by (simp_all add: st4_def st2_def del: set_room_same)
  have o5: "outbox (socks st5 ws) = outbox (socks st ws) @ [Joined (mroomId m) (mrole m)]"
    if "readyState (socks st ws) = OPEN"
    using that o4 r4 by (simp add: st5_def)
  have ext: "\<exists>xs. outbox (socks (send x y s) ws) = outbox (socks s ws) @ xs" for x y s
    by (cases x) simp_all
  have bind: "binding (handle_join v ws m t st) ws = (mroomId m, mrole m)"
    using b5 by (simp add: shape del: send.simps)
  have out: "\<exists>more. outbox (socks (handle_join v ws m t st) ws) =
               outbox (socks st ws) @ Joined (mroomId m) (mrole m) # more"
    if opn: "readyState (socks st ws) = OPEN"
  proof (cases "sender rm3 \<noteq> None \<and> receiver rm3 \<noteq> None")
    case False
    then have "handle_join v ws m t st = st5"
      by (simp only: shape if_False)
    then show ?thesis using o5 [OF opn] by simp
  next
    case True
    obtain xs where 1: "outbox (socks (send (sender rm3) Ready st5) ws) = outbox (socks st5 ws) @ xs"
      using ext by blast
    obtain ys where 2: "outbox (socks (send (receiver rm3) Ready (send (sender rm3) Ready st5)) ws)
        = outbox (socks (send (sender rm3) Ready st5) ws) @ ys"
      using ext by blast
    show ?thesis
      using True 1 2 o5 [OF opn] by (simp add: shape del: send.simps)
  qed
  from bind out show ?thesis by blast
qed

lemma handle_join_rejected:
  assumes rej: "\<not> admits ws m st"
  shows "binding (handle_join v ws m t st) c = binding st c"
proof -
  obtain rm st1 where g: "getRoom (mroomId m) t st = (rm, st1)"
    by (cases "getRoom (mroomId m) t st")
  have s1: "socks st1 = socks st"
    using socks_getRoom [of "mroomId m" t st] g by simp
  define rm1 where "rm1 = (if \<not> truthy (token rm) then rm\<lparr>token := mtoken m\<rparr> else rm)"
  define rm2 where "rm2 = (if mrole m = JStr ''sender'' then rm1\<lparr>sender := Some ws\<rparr> else rm1)"
  define rm3 where "rm3 = (if mrole m = JStr ''receiver'' then rm2\<lparr>receiver := Some ws\<rparr> else rm2)"
  define A1 where "A1 \<longleftrightarrow> \<not> truthy (mroomId m) \<or> \<not> truthy (mtoken m) \<or> \<not> truthy (mrole m)"
  define A2 where "A2 \<longleftrightarrow> truthy (token rm) \<and> token rm \<noteq> mtoken m"
  define A3 where "A3 \<longleftrightarrow>
      mrole m = JStr ''sender'' \<and> sender rm1 \<noteq> None \<and> sender rm1 \<noteq> Some ws"
  define A4 where "A4 \<longleftrightarrow>
      mrole m = JStr ''receiver'' \<and> receiver rm1 \<noteq> None \<and> receiver rm1 \<noteq> Some ws"
  define A5 where "A5 \<longleftrightarrow>
      length (filter (\<lambda>x. x \<noteq> None) [sender rm1, receiver rm1]) \<ge> MAX_PER_ROOM
        \<and> Some ws \<notin> set [sender rm1, receiver rm1]"
  have slots1: "sender rm1 = sender rm" "receiver rm1 = receiver rm"
    by (simp_all add: rm1_def)
  have b1: "binding st1 c = binding st c"
    using s1 by (rule binding_socks)
  consider (fresh) "map_of (rooms st) (mroomId m) = None"
    | (old) "map_of (rooms st) (mroomId m) = Some rm"
    using getRoom_cases [OF g] by auto
  then have some: "A1 \<or> A2 \<or> A3 \<or> A4 \<or> A5"
  proof cases
    case fresh
    then have A1
      using rej by (simp add: admits_def A1_def)
    then show ?thesis by blast
  next
    case old
    show ?thesis
      using rej unfolding A1_def A2_def A3_def A4_def A5_def slots1
      by (simp only: admits_def old option.case) blast
  qed
  define S where "S =
     (let st5 = send (Some ws) (Joined (mroomId m) (mrole m))
                 (touchRoom (mroomId m) t (set_room (mroomId m) rm3
                    ((set_room (mroomId m) rm1 st1)\<lparr>socks := (socks (set_room (mroomId m) rm1 st1))
                       (ws := (socks (set_room (mroomId m) rm1 st1) ws)
                          \<lparr>roomId := mroomId m, role := mrole m\<rparr>)\<rparr>)))
      in if sender rm3 \<noteq> None \<and> receiver rm3 \<noteq> None
         then send (receiver rm3) Ready (send (sender rm3) Ready st5)
         else st5)"
  have shape: "handle_join v ws m t st =
     (if A1 then send (Some ws) (ErrorMsg (txt_required v)) st
      else if A2 then send (Some ws) (ErrorMsg (txt_bad_token v)) st1
      else if A3 then send (Some ws) (ErrorMsg (txt_sender_exists v)) (set_room (mroomId m) rm1 st1)
      else if A4 then send (Some ws) (ErrorMsg (txt_receiver_exists v)) (set_room (mroomId m) rm1 st1)
      else if A5 then send (Some ws) (ErrorMsg (txt_room_full v)) (set_room (mroomId m) rm1 st1)
      else S)"
    unfolding A1_def A2_def A3_def A4_def A5_def S_def Let_def
    by (rule handle_join_shape [OF g rm1_def rm2_def rm3_def refl])
  have "binding (if A1 then send (Some ws) (ErrorMsg (txt_required v)) st
      else if A2 then send (Some ws) (ErrorMsg (txt_bad_token v)) st1
      else if A3 then send (Some ws) (ErrorMsg (txt_sender_exists v)) (set_room (mroomId m) rm1 st1)
      else if A4 then send (Some ws) (ErrorMsg (txt_receiver_exists v)) (set_room (mroomId m) rm1 st1)
      else if A5 then send (Some ws) (ErrorMsg (txt_room_full v)) (set_room (mroomId m) rm1 st1)
      else S) c = binding st c"
    using some b1
    by (cases A1; cases A2; cases A3; cases A4; cases A5)
       (simp_all del: send.simps set_room_same)
  then show ?thesis
    using shape by simp
qed

lemma admits_after_rate [simp]: "admits c m (after_rate ws t st) = admits c m st"
  by (simp add: admits_def)

text \<open>
  Claim C3, as the code has it. The \<open>roomId\<close> and \<open>role\<close> of a connection change only
  when a join message of that connection is admitted by the join branch, and every
  admitted join sets them to the \<open>roomId\<close> and \<open>role\<close> of the message, whatever the
  connection was bound to before, and is answered with \<^verbatim>\<open>joined\<close>. No rejected join,
  no other message, no \<^verbatim>\<open>leave\<close>, no cleanup after a close or an error and no sweep
  changes them.
\<close>

theorem binding_changes_only_by_join:
  "(binding (step v e st) c = binding st c \<or>
    (\<exists>p t m. e = Message c p t \<and> accepted v c p t st m \<and> mtype m = JStr ''join'' \<and>
       admits c m st \<and> binding (step v e st) c = (mroomId m, mrole m))) \<and>
   (e = Message c q u \<and> accepted v c q u st n \<and> mtype n = JStr ''join'' \<and> admits c n st \<longrightarrow>
      binding (step v e st) c = (mroomId n, mrole n) \<and>
      (readyState (socks st c) = OPEN \<longrightarrow>
         (\<exists>more. outbox (socks (step v e st) c) =
            outbox (socks st c) @ Joined (mroomId n) (mrole n) # more)))"
proof (intro conjI impI)
  show "binding (step v e st) c = binding st c \<or>
    (\<exists>p t m. e = Message c p t \<and> accepted v c p t st m \<and> mtype m = JStr ''join'' \<and>
       admits c m st \<and> binding (step v e st) c = (mroomId m, mrole m))"
  proof (cases e)
    case (Message ws p t)
    show ?thesis
    proof (cases "\<exists>m. accepted v ws p t st m")
      case False
      obtain ok st1 where er: "enforceRate v ws t st = (ok, st1)"
        by (cases "enforceRate v ws t st")
      have "binding st1 c = binding st c"
        using binding_enforceRate [of v ws t st c] er by simp
      then have "binding (snd (on_message v ws p t st)) c = binding st c"
        using False
        by (cases ok; cases "parse v p") (simp_all add: on_message_def accepted_def er)
      then show ?thesis by (simp add: Message)
    next
      case True
      then obtain m where acc: "accepted v ws p t st m" ..
      have st1: "binding (after_rate ws t st) c' = binding st c'" for c'
        by (rule binding_socks) simp
      show ?thesis
      proof (cases "mtype m = JStr ''join''")
        case False
        then have "binding (dispatch v ws m t (after_rate ws t st)) c = binding st c"
          using st1 by (simp add: dispatch_def del: send.simps)
        then show ?thesis
          by (simp add: Message on_message_accepted [OF acc])
      next
        case True
        then have d: "snd (on_message v ws p t st) = handle_join v ws m t (after_rate ws t st)"
          by (simp add: on_message_accepted [OF acc] dispatch_def)
        show ?thesis
        proof (cases "admits ws m st")
          case False
          then have "binding (handle_join v ws m t (after_rate ws t st)) c = binding st c"
            using handle_join_rejected [of ws m "after_rate ws t st" v t c] st1 [of c] by simp
          then show ?thesis by (simp add: Message d)
        next
          case adm: True
          show ?thesis
          proof (cases "c = ws")
            case False
            then have "binding (handle_join v ws m t (after_rate ws t st)) c = binding st c"
              using binding_handle_join [of v ws m t "after_rate ws t st" c] st1 [of c] by auto
            then show ?thesis by (simp add: Message d)
          next
            case same: True
            have "binding (handle_join v ws m t (after_rate ws t st)) ws = (mroomId m, mrole m)"
              using handle_join_admitted [of ws m "after_rate ws t st" v t] adm by simp
            then have "e = Message c p t \<and> accepted v c p t st m \<and> mtype m = JStr ''join'' \<and>
                admits c m st \<and> binding (step v e st) c = (mroomId m, mrole m)"
              using acc True adm by (simp add: same Message d)
            then show ?thesis by blast
          qed
        qed
      qed
    qed
  next
    case (SockClose ws t)
    then show ?thesis
      by (simp add: binding_def [of "st\<lparr>socks := _\<rparr>"] binding_def [of st])
  next
    case (SockError ws t)
    then show ?thesis by simp
  next
    case (Sweep t)
    then show ?thesis by (simp add: cleanupStale_def)
  qed
next
  assume h: "e = Message c q u \<and> accepted v c q u st n \<and> mtype n = JStr ''join'' \<and> admits c n st"
  then have acc: "accepted v c q u st n" and adm: "admits c n (after_rate c u st)"
    by simp_all
  from h have d: "step v e st = handle_join v c n u (after_rate c u st)"
    by (simp add: on_message_accepted [OF acc] dispatch_def)
  from handle_join_admitted [OF adm, of v u]
  show "binding (step v e st) c = (mroomId n, mrole n)"
    by (simp add: d)
  assume "readyState (socks st c) = OPEN"
  with handle_join_admitted [OF adm, of v u]
  show "\<exists>more. outbox (socks (step v e st) c) =
            outbox (socks st c) @ Joined (mroomId n) (mrole n) # more"
    by (simp add: d)
qed

theorem binding_changes_only_by_join_witness:
  "admits 2 (join_env ''r1'' ''t'' ''receiver'') alone_state \<and>
   binding (step Node (Message 2 (text_payload (join_env ''r1'' ''t'' ''receiver'')) 1)
      alone_state) 2 = (JStr ''r1'', JStr ''receiver'')"
proof -
  let ?m = "join_env ''r1'' ''t'' ''receiver''"
  have acc: "accepted Node 2 (text_payload ?m) 1 alone_state ?m"
    by (simp add: example_defs alone_state_def)
  have join: "mtype ?m = JStr ''join''"
    by (simp add: join_env_def)
  have adm: "admits 2 ?m alone_state"
    by (simp add: admits_def join_env_def alone_state_def MAX_PER_ROOM_def)
  from binding_changes_only_by_join
    [of Node "Message 2 (text_payload ?m) 1" alone_state 2 "text_payload ?m" 1 ?m] acc join adm
  have "binding (step Node (Message 2 (text_payload ?m) 1) alone_state) 2 = (mroomId ?m, mrole ?m)"
    by blast
  then have "binding (step Node (Message 2 (text_payload ?m) 1) alone_state) 2
      = (JStr ''r1'', JStr ''receiver'')"
    by (simp add: join_env_def)
  with adm show ?thesis ..
qed

lemma rebound_reached:
  "step v (Message 1 (text_payload (join_env ''r2'' ''t'' ''receiver'')) 1) alone_state
     = rebound_state"
proof -
  have acc: "accepted v 1 (text_payload (join_env ''r2'' ''t'' ''receiver'')) 1 alone_state
               (join_env ''r2'' ''t'' ''receiver'')"
    by (cases v) (simp_all add: example_defs alone_state_def)
  show ?thesis
    by (simp only: step.simps on_message_accepted [OF acc] snd_conv)
       (simp add: join_env_def alone_state_def rebound_state_def after_rate_def window_of_def
          fresh_socket_def dispatch_def handle_join_def getRoom_def set_room_def touchRoom_def
          MAX_PER_ROOM_def RATE_LIMIT_WINDOW_MS_def Let_def)
qed

theorem rebinding_counterexample:
  "binding (run Deno
      [Message 1 (text_payload (join_env ''r1'' ''t'' ''sender'')) 0] init) 1
     = (JStr ''r1'', JStr ''sender'') \<and>
   binding (run Deno
      [Message 1 (text_payload (join_env ''r1'' ''t'' ''sender'')) 0,
       Message 1 (text_payload (join_env ''r2'' ''t'' ''receiver'')) 1] init) 1
     = (JStr ''r2'', JStr ''receiver'') \<and>
   holds (run Deno
      [Message 1 (text_payload (join_env ''r1'' ''t'' ''sender'')) 0,
       Message 1 (text_payload (join_env ''r2'' ''t'' ''receiver'')) 1] init)
     1 (JStr ''r1'') (JStr ''sender'') \<and>
   holds (run Deno
      [Message 1 (text_payload (join_env ''r1'' ''t'' ''sender'')) 0,
       Message 1 (text_payload (join_env ''r2'' ''t'' ''receiver'')) 1] init)
     1 (JStr ''r2'') (JStr ''receiver'')"
  by (simp only: run.simps alone_reached rebound_reached)
     (simp add: binding_def alone_state_def rebound_state_def holds_def slot_def)

section \<open>Who receives \<^verbatim>\<open>ready\<close>\<close>

lemma set_update_subset: "set (AList.update k x al) \<subseteq> insert (k, x) (set al)"
  by (induction al) auto

lemma set_delete_subset: "set (AList.delete k al) \<subseteq> set al"
  by (auto simp: AList.delete_eq)

lemma in_slot_rooms: "rooms st' = rooms st \<Longrightarrow> in_slot st' c = in_slot st c"
  by (simp add: in_slot_def)

lemma in_slot_send [simp]: "in_slot (send x m st) c = in_slot st c"
  by (rule in_slot_rooms) simp

lemma in_slot_socks [simp]: "in_slot (st\<lparr>socks := f\<rparr>) c = in_slot st c"
  by (rule in_slot_rooms) simp

lemma in_slot_close_ws [simp]: "in_slot (close_ws ws code reason st) c = in_slot st c"
  by (rule in_slot_rooms) simp

lemma in_slot_close_opt [simp]: "in_slot (close_opt x st) c = in_slot st c"
  by (rule in_slot_rooms) simp

lemma in_slot_after_rate [simp]: "in_slot (after_rate ws t st) c = in_slot st c"
  by (rule in_slot_rooms) simp

lemma in_slot_lookup:
  "\<not> in_slot st c \<Longrightarrow> map_of (rooms st) k = Some rm \<Longrightarrow>
     sender rm \<noteq> Some c \<and> receiver rm \<noteq> Some c"
  by (auto simp: in_slot_def list_ex_iff dest!: map_of_SomeD)

lemma not_in_slot_update:
  assumes "\<not> in_slot st c" "sender rm \<noteq> Some c" "receiver rm \<noteq> Some c"
    and "rooms st' = AList.update k rm (rooms st)"
  shows "\<not> in_slot st' c"
  using assms set_update_subset [of k rm "rooms st"]
  by (auto simp: in_slot_def list_ex_iff)

lemma not_in_slot_delete:
  assumes "\<not> in_slot st c" "rooms st' = AList.delete k (rooms st)"
  shows "\<not> in_slot st' c"
  using assms set_delete_subset [of k "rooms st"]
  by (auto simp: in_slot_def list_ex_iff)

lemma not_in_slot_set_room:
  "\<not> in_slot st c \<Longrightarrow> sender rm \<noteq> Some c \<Longrightarrow> receiver rm \<noteq> Some c \<Longrightarrow>
     \<not> in_slot (set_room k rm st) c"
  by (rule not_in_slot_update [where k = k and rm = rm]) (simp_all add: set_room_def)

lemma not_in_slot_touchRoom:
  assumes "\<not> in_slot st c"
  shows "\<not> in_slot (touchRoom k t st) c"
proof (cases "map_of (rooms st) k")
  case None
  then show ?thesis using assms by (simp add: touchRoom_def)
next
  case (Some rm)
  have "\<not> in_slot (st\<lparr>rooms := AList.update k (rm\<lparr>touchedAt := t\<rparr>) (rooms st)\<rparr>) c"
  proof (rule not_in_slot_update [where k = k and rm = "rm\<lparr>touchedAt := t\<rparr>" and st = st])
    show "\<not> in_slot st c" by fact
    show "sender (rm\<lparr>touchedAt := t\<rparr>) \<noteq> Some c"
      and "receiver (rm\<lparr>touchedAt := t\<rparr>) \<noteq> Some c"
      using in_slot_lookup [OF assms Some] by simp_all
  qed simp
  then show ?thesis using Some by (simp add: touchRoom_def)
qed

lemma not_in_slot_getRoom:
  assumes "\<not> in_slot st c" "getRoom k t st = (rm, st1)"
  shows "\<not> in_slot st1 c \<and> sender rm \<noteq> Some c \<and> receiver rm \<noteq> Some c"
proof (cases "map_of (rooms st) k")
  case None
  let ?rm = "\<lparr>sender = None, receiver = None, token = JNull, touchedAt = t\<rparr>"
  have "\<not> in_slot (st\<lparr>rooms := AList.update k ?rm (rooms st)\<rparr>) c"
  proof (rule not_in_slot_update [where k = k and rm = ?rm and st = st])
    show "\<not> in_slot st c" by fact
  qed simp_all
  then show ?thesis using None assms(2) by (auto simp: getRoom_def Let_def)
next
  case (Some r)
  then show ?thesis
    using assms in_slot_lookup [OF assms(1) Some] by (auto simp: getRoom_def)
qed

lemma readies_socks: "socks st' = socks st \<Longrightarrow> readies st' c = readies st c"
  by (simp add: readies_def)

lemma readies_send_other: "x \<noteq> Some c \<Longrightarrow> readies (send x m st) c = readies st c"
  by (cases x) (simp_all add: readies_def)

lemma readies_send_not_ready: "m \<noteq> Ready \<Longrightarrow> readies (send x m st) c = readies st c"
  by (cases x) (simp_all add: readies_def)

lemma readies_rooms_update [simp]: "readies (st\<lparr>rooms := r\<rparr>) c = readies st c"
  by (simp add: readies_def)

lemma readies_touchRoom [simp]: "readies (touchRoom k t st) c = readies st c"
  by (rule readies_socks) simp

lemma readies_set_room [simp]: "readies (set_room k rm st) c = readies st c"
  by (rule readies_socks) simp

lemma readies_close_ws [simp]: "readies (close_ws ws code reason st) c = readies st c"
  by (simp add: readies_def close_ws_def Let_def)

lemma readies_close_opt [simp]: "readies (close_opt x st) c = readies st c"
  by (cases x) simp_all

lemma readies_after_rate [simp]: "readies (after_rate ws t st) c = readies st c"
  by (rule readies_socks) simp

lemma readies_enforceRate [simp]: "readies (snd (enforceRate v ws t st)) c = readies st c"
  by (simp add: enforceRate_def Let_def readies_def close_ws_def)

lemma in_slot_enforceRate [simp]: "in_slot (snd (enforceRate v ws t st)) c = in_slot st c"
  by (rule in_slot_rooms) simp

lemma readies_socks_other:
  "c \<noteq> ws \<Longrightarrow> readies (st\<lparr>socks := (socks st)(c := x)\<rparr>) ws = readies st ws"
  by (simp add: readies_def)

lemma quiet_handle_join:
  assumes other: "c \<noteq> ws" and free: "\<not> in_slot st ws"
  shows "\<not> in_slot (handle_join v c m t st) ws \<and>
         readies (handle_join v c m t st) ws = readies st ws"
proof -
  obtain rm st1 where g: "getRoom (mroomId m) t st = (rm, st1)"
    by (cases "getRoom (mroomId m) t st")
  from not_in_slot_getRoom [OF free g]
  have n1: "\<not> in_slot st1 ws" and f0: "sender rm \<noteq> Some ws" "receiver rm \<noteq> Some ws"
    by simp_all
  have s1: "readies st1 ws = readies st ws"
    using socks_getRoom [of "mroomId m" t st] g by (simp add: readies_def)
  define rm1 where "rm1 = (if \<not> truthy (token rm) then rm\<lparr>token := mtoken m\<rparr> else rm)"
  define rm2 where "rm2 = (if mrole m = JStr ''sender'' then rm1\<lparr>sender := Some c\<rparr> else rm1)"
  define rm3 where "rm3 = (if mrole m = JStr ''receiver'' then rm2\<lparr>receiver := Some c\<rparr> else rm2)"
  define st2 where "st2 = set_room (mroomId m) rm1 st1"
  define st4 where "st4 = touchRoom (mroomId m) t (set_room (mroomId m) rm3
      (st2\<lparr>socks := (socks st2)(c := (socks st2 c)\<lparr>roomId := mroomId m, role := mrole m\<rparr>)\<rparr>))"
  define st5 where "st5 = send (Some c) (Joined (mroomId m) (mrole m)) st4"
  have f1: "sender rm1 \<noteq> Some ws" "receiver rm1 \<noteq> Some ws"
    using f0 by (simp_all add: rm1_def)
  have f3: "sender rm3 \<noteq> Some ws" "receiver rm3 \<noteq> Some ws"
    using f1 other by (simp_all add: rm2_def rm3_def)
  have n2: "\<not> in_slot st2 ws"
    unfolding st2_def using n1 f1 by (rule not_in_slot_set_room)
  have r2: "readies st2 ws = readies st ws"
    using s1 by (simp add: st2_def del: set_room_same)
  have n4: "\<not> in_slot st4 ws"
    unfolding st4_def using n2 f3
    by (intro not_in_slot_touchRoom not_in_slot_set_room) simp_all
  have r4: "readies st4 ws = readies st ws"
    using r2 other by (simp add: st4_def readies_socks_other del: set_room_same)
  have n5: "\<not> in_slot st5 ws"
    using n4 by (simp add: st5_def del: send.simps)
  have r5: "readies st5 ws = readies st ws"
    using r4 by (simp add: st5_def readies_send_not_ready del: send.simps)
  have r6: "readies (send (receiver rm3) Ready (send (sender rm3) Ready st5)) ws = readies st ws"
    using r5 f3 by (simp add: readies_send_other del: send.simps)
  have shape: "handle_join v c m t st =
     (if \<not> truthy (mroomId m) \<or> \<not> truthy (mtoken m) \<or> \<not> truthy (mrole m)
      then send (Some c) (ErrorMsg (txt_required v)) st
      else if truthy (token rm) \<and> token rm \<noteq> mtoken m
      then send (Some c) (ErrorMsg (txt_bad_token v)) st1
      else if mrole m = JStr ''sender'' \<and> sender rm1 \<noteq> None \<and> sender rm1 \<noteq> Some c
      then send (Some c) (ErrorMsg (txt_sender_exists v)) st2
      else if mrole m = JStr ''receiver'' \<and> receiver rm1 \<noteq> None \<and> receiver rm1 \<noteq> Some c
      then send (Some c) (ErrorMsg (txt_receiver_exists v)) st2
      else if length (filter (\<lambda>x. x \<noteq> None) [sender rm1, receiver rm1]) \<ge> MAX_PER_ROOM
              \<and> Some c \<notin> set [sender rm1, receiver rm1]
      then send (Some c) (ErrorMsg (txt_room_full v)) st2
      else if sender rm3 \<noteq> None \<and> receiver rm3 \<noteq> None
      then send (receiver rm3) Ready (send (sender rm3) Ready st5)
      else st5)"
    unfolding st2_def st4_def st5_def
    by (rule handle_join_shape [OF g rm1_def rm2_def rm3_def refl])
  show ?thesis
    unfolding shape
    using free n1 n2 n5 s1 r2 r5 r6
    by (simp add: readies_send_not_ready del: send.simps)
qed

lemma quiet_handle_relay:
  "(\<not> in_slot st ws \<longrightarrow> \<not> in_slot (handle_relay v c m t st) ws) \<and>
   readies (handle_relay v c m t st) ws = readies st ws"
  by (cases v)
     (simp_all add: Let_def readies_send_not_ready not_in_slot_touchRoom
        split: option.splits del: send.simps)

lemma quiet_cleanupSocket:
  "(\<not> in_slot st ws \<longrightarrow> \<not> in_slot (cleanupSocket c t st) ws) \<and>
   readies (cleanupSocket c t st) ws = readies st ws"
proof (cases "truthy (roomId (socks st c)) \<and> truthy (role (socks st c))
               \<and> map_of (rooms st) (roomId (socks st c)) \<noteq> None")
  case False
  then show ?thesis by (simp add: cleanupSocket_noop)
next
  case True
  then obtain rm where rm: "map_of (rooms st) (roomId (socks st c)) = Some rm"
    by auto
  define rm1 where "rm1 = (if role (socks st c) = JStr ''sender'' \<and> sender rm = Some c
                then rm\<lparr>sender := None\<rparr> else rm)"
  define rm2 where "rm2 = (if role (socks st c) = JStr ''receiver'' \<and> receiver rm1 = Some c
                then rm1\<lparr>receiver := None\<rparr> else rm1)"
  define st2 where "st2 = touchRoom (roomId (socks st c)) t
                 (send (if role (socks st c) = JStr ''sender'' then receiver rm2 else sender rm2)
                    PeerLeft (set_room (roomId (socks st c)) rm2 st))"
  have r2: "readies st2 ws = readies st ws"
    by (simp add: st2_def readies_send_not_ready del: send.simps set_room_same)
  have n2: "\<not> in_slot st2 ws" if free: "\<not> in_slot st ws"
  proof -
    from in_slot_lookup [OF free rm]
    have "sender rm2 \<noteq> Some ws" "receiver rm2 \<noteq> Some ws"
      by (simp_all add: rm1_def rm2_def)
    with free have "\<not> in_slot (set_room (roomId (socks st c)) rm2 st) ws"
      by (rule not_in_slot_set_room)
    then show ?thesis
      unfolding st2_def by (intro not_in_slot_touchRoom) simp
  qed
  have n3: "\<not> in_slot (st2\<lparr>rooms := AList.delete (roomId (socks st c)) (rooms st2)\<rparr>) ws"
    if free: "\<not> in_slot st ws"
    using n2 [OF free] by (rule not_in_slot_delete) simp
  show ?thesis
    using True r2 n2 n3 cleanupSocket_shape [OF _ _ rm rm1_def rm2_def st2_def]
    by simp
qed

lemma quiet_cleanupStale_loop:
  "(\<not> in_slot st ws \<longrightarrow> \<not> in_slot (cleanupStale_loop cutoff es st) ws) \<and>
   readies (cleanupStale_loop cutoff es st) ws = readies st ws"
proof (induction es arbitrary: st)
  case Nil
  then show ?case by simp
next
  case (Cons e es)
  obtain rid rm where e: "e = (rid, rm)" by (cases e)
  let ?st2 = "close_opt (receiver rm) (close_opt (sender rm) st)"
  let ?st3 = "?st2\<lparr>rooms := AList.delete rid (rooms ?st2)\<rparr>"
  have n: "\<not> in_slot ?st3 ws" if "\<not> in_slot st ws"
  proof (rule not_in_slot_delete [where k = rid and st = ?st2])
    show "\<not> in_slot ?st2 ws" using that by simp
  qed simp
  have r: "readies ?st3 ws = readies st ws"
    by simp
  show ?case
    using Cons.IH [of ?st3] Cons.IH [of st] n r
    by (simp add: e Let_def)
qed

lemma quiet_on_message:
  assumes free: "\<not> in_slot st ws" and nj: "\<not> is_join_of v ws (Message c p t)"
  shows "\<not> in_slot (snd (on_message v c p t st)) ws \<and>
         readies (snd (on_message v c p t st)) ws = readies st ws"
proof (cases "\<exists>m. accepted v c p t st m")
  case False
  obtain ok st1 where er: "enforceRate v c t st = (ok, st1)"
    by (cases "enforceRate v c t st")
  have "\<not> in_slot st1 ws" and "readies st1 ws = readies st ws"
    using free in_slot_enforceRate [of v c t st ws] readies_enforceRate [of v c t st ws] er
    by simp_all
  then show ?thesis
    using False free
    by (cases ok; cases "parse v p") (simp_all add: on_message_def accepted_def er)
next
  case True
  then obtain m where acc: "accepted v c p t st m" ..
  let ?st1 = "after_rate c t st"
  have free1: "\<not> in_slot ?st1 ws" and r1: "readies ?st1 ws = readies st ws"
    using free by simp_all
  have "\<not> in_slot (dispatch v c m t ?st1) ws \<and> readies (dispatch v c m t ?st1) ws = readies st ws"
  proof (cases "mtype m = JStr ''join''")
    case True
    then have "c \<noteq> ws"
      using nj acc by (auto simp: accepted_def)
    then show ?thesis
      using quiet_handle_join [OF _ free1, of c v m t] r1 True by (simp add: dispatch_def)
  next
    case False
    then show ?thesis
      using free1 r1 quiet_handle_relay [of ?st1 ws v c m t] quiet_cleanupSocket [of ?st1 ws c t]
      by (simp add: dispatch_def readies_send_not_ready del: send.simps)
  qed
  then show ?thesis
    by (simp add: on_message_accepted [OF acc])
qed

lemma quiet_step:
  assumes "\<not> in_slot st ws" "\<not> is_join_of v ws e"
  shows "\<not> in_slot (step v e st) ws \<and> readies (step v e st) ws = readies st ws"
proof (cases e)
  case (Message c p t)
  then show ?thesis using quiet_on_message [of st ws v c p t] assms by simp
next
  case (SockClose c t)
  let ?st1 = "st\<lparr>socks := (socks st)(c := (socks st c)\<lparr>readyState := CLOSED\<rparr>)\<rparr>"
  have "\<not> in_slot ?st1 ws" and "readies ?st1 ws = readies st ws"
    using assms(1) by (simp_all add: readies_def)
  then show ?thesis
    using quiet_cleanupSocket [of ?st1 ws c t] by (simp add: SockClose)
next
  case (SockError c t)
  then show ?thesis using quiet_cleanupSocket [of st ws c t] assms(1) by simp
next
  case (Sweep t)
  then show ?thesis
    using quiet_cleanupStale_loop [of st ws "t - ROOM_TTL_MS" "rooms st"] assms(1)
    by (simp add: cleanupStale_def)
qed

lemma quiet_run:
  assumes "\<not> in_slot st ws" "\<forall>e \<in> set es. \<not> is_join_of v ws e"
  shows "\<not> in_slot (run v es st) ws \<and> readies (run v es st) ws = readies st ws"
  using assms
proof (induction es arbitrary: st)
  case Nil
  then show ?case by simp
next
  case (Cons e es)
  from Cons.prems have q: "\<not> in_slot (step v e st) ws \<and> readies (step v e st) ws = readies st ws"
    by (intro quiet_step) simp_all
  with Cons.IH [of "step v e st"] Cons.prems(2) show ?case
    by simp
qed

text \<open>
  Claim C10. A join message that reaches the dispatch, with truthy \<open>roomId\<close> and
  \<open>token\<close> and a role that is a non-empty string other than \<^verbatim>\<open>sender\<close> and
  \<^verbatim>\<open>receiver\<close>, for a room id that is not registered: the server registers the room
  with both slots empty and the message's token as its secret, binds the connection to
  the room id and the role, answers \<^verbatim>\<open>joined\<close> and writes to no other connection. If
  the connection was in no slot before, then whatever happens next, as long as it sends
  no further join, no \<^verbatim>\<open>ready\<close> is ever written to it.
\<close>

theorem join_with_other_role:
  assumes acc: "accepted v ws p t st m"
    and join: "mtype m = JStr ''join''"
    and fields: "truthy (mroomId m)" "truthy (mtoken m)"
    and rl: "mrole m = JStr s" "s \<noteq> []" "s \<noteq> ''sender''" "s \<noteq> ''receiver''"
    and absent: "map_of (rooms st) (mroomId m) = None"
    and opn: "readyState (socks st ws) = OPEN"
  shows "\<exists>st'. on_message v ws p t st = (None, st') \<and>
           rooms st' = rooms st @ [(mroomId m,
             \<lparr>sender = None, receiver = None, token = mtoken m, touchedAt = t\<rparr>)] \<and>
           binding st' ws = (mroomId m, mrole m) \<and>
           outbox (socks st' ws) = outbox (socks st ws) @ [Joined (mroomId m) (mrole m)] \<and>
           (\<forall>c. c \<noteq> ws \<longrightarrow> socks st' c = socks st c) \<and>
           (\<not> in_slot st ws \<longrightarrow>
              (\<forall>es. (\<forall>e \<in> set es. \<not> is_join_of v ws e) \<longrightarrow>
                 readies (run v es st') ws = readies st ws))"
proof -
  let ?st1 = "after_rate ws t st"
  let ?rm = "\<lparr>sender = None, receiver = None, token = mtoken m, touchedAt = t\<rparr>"
  let ?st' = "send (Some ws) (Joined (mroomId m) (mrole m))
       (?st1\<lparr>rooms := rooms ?st1 @ [(mroomId m, ?rm)],
            socks := (socks ?st1)(ws := (socks ?st1 ws)\<lparr>roomId := mroomId m, role := mrole m\<rparr>)\<rparr>)"
  have "dispatch v ws m t ?st1 = ?st'"
    using join handle_join_new_room_other_role [of m ?st1 v ws t] fields rl absent
    by (simp add: dispatch_def)
  then have res: "on_message v ws p t st = (None, ?st')"
    using on_message_accepted [OF acc] by simp
  have now: "rooms ?st' = rooms st @ [(mroomId m, ?rm)]"
    "binding ?st' ws = (mroomId m, mrole m)"
    "outbox (socks ?st' ws) = outbox (socks st ws) @ [Joined (mroomId m) (mrole m)]"
    "\<forall>c. c \<noteq> ws \<longrightarrow> socks ?st' c = socks st c"
    using opn by (simp_all add: binding_def)
  have later: "readies (run v es ?st') ws = readies st ws"
    if free: "\<not> in_slot st ws" and nj: "\<forall>e \<in> set es. \<not> is_join_of v ws e" for es
  proof -
    have "\<not> in_slot ?st' ws"
      using free now(1) by (simp add: in_slot_def)
    from quiet_run [OF this nj] have "readies (run v es ?st') ws = readies ?st' ws"
      by simp
    also have "\<dots> = readies st ws"
      using now(3) by (simp add: readies_def)
    finally show ?thesis .
  qed
  show ?thesis
    using res now later by blast
qed

theorem join_with_other_role_witness:
  "rooms (snd (on_message Deno 1 (text_payload (join_env ''r9'' ''t'' ''observer'')) 0 init))
     = [(JStr ''r9'', \<lparr>sender = None, receiver = None, token = JStr ''t'', touchedAt = 0\<rparr>)] \<and>
   outbox (socks (snd (on_message Deno 1 (text_payload (join_env ''r9'' ''t'' ''observer'')) 0
     init)) 1) = [Joined (JStr ''r9'') (JStr ''observer'')] \<and>
   readies (run Deno
      [Message 2 (text_payload (join_env ''r9'' ''t'' ''sender'')) 1,
       Message 3 (text_payload (join_env ''r9'' ''t'' ''receiver'')) 2]
      (snd (on_message Deno 1 (text_payload (join_env ''r9'' ''t'' ''observer'')) 0 init))) 1 = 0"
proof -
  let ?m = "join_env ''r9'' ''t'' ''observer''"
  let ?es = "[Message 2 (text_payload (join_env ''r9'' ''t'' ''sender'')) 1,
       Message 3 (text_payload (join_env ''r9'' ''t'' ''receiver'')) 2]"
  have acc: "accepted Deno 1 (text_payload ?m) 0 init ?m"
    by (simp add: example_defs init_def)
  have join: "mtype ?m = JStr ''join''"
    and fields: "truthy (mroomId ?m)" "truthy (mtoken ?m)"
    and rl: "mrole ?m = JStr ''observer''" "''observer'' \<noteq> []"
      "''observer'' \<noteq> ''sender''" "''observer'' \<noteq> ''receiver''"
    by (simp_all add: join_env_def)
  have absent: "map_of (rooms init) (mroomId ?m) = None"
    by (simp add: init_def)
  have opn: "readyState (socks init 1) = OPEN"
    by (simp add: init_def fresh_socket_def)
  have free: "\<not> in_slot init 1"
    by (simp add: in_slot_def init_def)
  have nj: "\<forall>e \<in> set ?es. \<not> is_join_of Deno 1 e"
    by simp
  have r0: "readies init 1 = 0"
    by (simp add: readies_def init_def fresh_socket_def)
  from join_with_other_role [OF acc join fields rl absent opn]
  obtain st' where o: "on_message Deno 1 (text_payload ?m) 0 init = (None, st')"
    and r: "rooms st' = rooms init @ [(mroomId ?m,
             \<lparr>sender = None, receiver = None, token = mtoken ?m, touchedAt = 0\<rparr>)]"
    and b: "outbox (socks st' 1) = outbox (socks init 1) @ [Joined (mroomId ?m) (mrole ?m)]"
    and l: "\<not> in_slot init 1 \<longrightarrow>
              (\<forall>es. (\<forall>e \<in> set es. \<not> is_join_of Deno 1 e) \<longrightarrow>
                 readies (run Deno es st') 1 = readies init 1)"
    by blast
  from l free nj have "readies (run Deno ?es st') 1 = readies init 1"
    by blast
  with r0 have z: "readies (run Deno ?es st') 1 = 0"
    by simp
  have r': "rooms st' =
      [(JStr ''r9'', \<lparr>sender = None, receiver = None, token = JStr ''t'', touchedAt = 0\<rparr>)]"
    using r by (simp add: join_env_def init_def)
  have b': "outbox (socks st' 1) = [Joined (JStr ''r9'') (JStr ''observer'')]"
    using b by (simp add: join_env_def init_def fresh_socket_def)
  show ?thesis
    using r' b' z by (simp only: o snd_conv)
qed

section \<open>The rate limiter in a run of events\<close>

lemma window_rateLimit: "rateLimit st' = rateLimit st \<Longrightarrow> window_of st' ws = window_of st ws"
  by (simp add: window_of_def)

lemma rateLimit_send [simp]: "rateLimit (send x m st) = rateLimit st"
  by (cases x) simp_all

lemma rateLimit_close_ws [simp]: "rateLimit (close_ws c code reason st) = rateLimit st"
  by (simp add: close_ws_def Let_def)

lemma rateLimit_close_opt [simp]: "rateLimit (close_opt x st) = rateLimit st"
  by (cases x) simp_all

lemma rateLimit_touchRoom [simp]: "rateLimit (touchRoom rid t st) = rateLimit st"
  by (simp add: touchRoom_def split: option.splits)

lemma rateLimit_set_room [simp]: "rateLimit (set_room rid rm st) = rateLimit st"
  by (simp add: set_room_def)

lemma rateLimit_getRoom: "getRoom rid t st = (rm, st1) \<Longrightarrow> rateLimit st1 = rateLimit st"
  by (auto simp: getRoom_def Let_def split: option.splits)

lemma rateLimit_handle_join [simp]: "rateLimit (handle_join v ws m t st) = rateLimit st"
proof -
  obtain rm st1 where g: "getRoom (mroomId m) t st = (rm, st1)"
    by (cases "getRoom (mroomId m) t st")
  define rm1 where "rm1 = (if \<not> truthy (token rm) then rm\<lparr>token := mtoken m\<rparr> else rm)"
  define rm2 where "rm2 = (if mrole m = JStr ''sender'' then rm1\<lparr>sender := Some ws\<rparr> else rm1)"
  define rm3 where "rm3 = (if mrole m = JStr ''receiver'' then rm2\<lparr>receiver := Some ws\<rparr> else rm2)"
  show ?thesis
    using rateLimit_getRoom [OF g]
    by (simp add: handle_join_shape [OF g rm1_def rm2_def rm3_def refl]
        del: send.simps set_room_same)
qed

lemma rateLimit_handle_relay [simp]: "rateLimit (handle_relay v ws m t st) = rateLimit st"
  by (cases v) (simp_all add: Let_def split: option.splits del: send.simps)

lemma rateLimit_cleanupSocket [simp]: "rateLimit (cleanupSocket ws t st) = rateLimit st"
proof (cases "truthy (roomId (socks st ws)) \<and> truthy (role (socks st ws))
               \<and> map_of (rooms st) (roomId (socks st ws)) \<noteq> None")
  case False
  then show ?thesis by (simp add: cleanupSocket_noop)
next
  case True
  then obtain rm where rm: "map_of (rooms st) (roomId (socks st ws)) = Some rm"
    by auto
  show ?thesis
    using True cleanupSocket_shape [OF _ _ rm refl refl refl, of t]
    by (simp del: send.simps set_room_same)
qed

lemma rateLimit_cleanupStale_loop [simp]:
  "rateLimit (cleanupStale_loop cutoff es st) = rateLimit st"
  by (induction es arbitrary: st) (auto simp: Let_def)

lemma rateLimit_dispatch [simp]: "rateLimit (dispatch v ws m t st) = rateLimit st"
  by (simp add: dispatch_def del: send.simps)

lemma window_enforceRate_other:
  "c \<noteq> ws \<Longrightarrow> window_of (snd (enforceRate v c t st)) ws = window_of st ws"
  by (simp add: enforceRate_def Let_def window_of_def)

lemma window_on_message:
  "window_of (snd (on_message v c p t st)) ws =
     (if c = ws \<and> \<not> too_big v p then window_of (snd (enforceRate v ws t st)) ws
      else window_of st ws)"
proof -
  obtain ok st1 where er: "enforceRate v c t st = (ok, st1)"
    by (cases "enforceRate v c t st")
  then have st1: "st1 = snd (enforceRate v c t st)"
    by simp
  have "window_of (snd (on_message v c p t st)) ws =
          (if too_big v p then window_of st ws else window_of st1 ws)"
    by (cases ok; cases "parse v p")
       (simp_all add: on_message_def er window_rateLimit [of "close_ws _ _ _ _"]
          window_rateLimit [of "dispatch _ _ _ _ _"])
  then show ?thesis
    using window_enforceRate_other [of c ws v t st] by (auto simp: st1)
qed

lemma window_step:
  "window_of (step v e st) ws =
     (case rate_times v ws [e] of
        [] \<Rightarrow> window_of st ws
      | t # _ \<Rightarrow> window_of (snd (enforceRate v ws t st)) ws)"
  by (cases e)
     (simp_all add: window_on_message cleanupStale_def
        window_rateLimit [of "cleanupSocket _ _ _"] window_rateLimit [of "cleanupStale_loop _ _ _"])

lemma rate_times_Cons: "rate_times v ws (e # es) = rate_times v ws [e] @ rate_times v ws es"
  by (cases e) simp_all

lemma window_run:
  "window_of st1 ws = window_of st2 ws \<Longrightarrow>
     window_of (run v es st1) ws = window_of (snd (arrivals v ws (rate_times v ws es) st2)) ws"
proof (induction es arbitrary: st1 st2)
  case Nil
  then show ?case by simp
next
  case (Cons e es)
  show ?case
  proof (cases "rate_times v ws [e]")
    case Nil
    then have times: "rate_times v ws (e # es) = rate_times v ws es"
      by (cases e) (auto split: if_splits)
    have "window_of (step v e st1) ws = window_of st2 ws"
      using Cons.prems Nil by (simp add: window_step)
    from Cons.IH [OF this] show ?thesis
      by (simp add: times)
  next
    case (Cons t ts)
    then have times: "rate_times v ws (e # es) = t # rate_times v ws es"
      by (cases e) (auto split: if_splits)
    have "window_of (step v e st1) ws = window_of (snd (enforceRate v ws t st2)) ws"
      using Cons.prems Cons by (simp add: window_step enforceRate_window)
    from Cons.IH [OF this] show ?thesis
      by (simp add: times case_prod_beta Let_def)
  qed
qed

lemma arrivals_append:
  "arrivals v ws (ts @ us) st =
     (fst (arrivals v ws ts st) @ fst (arrivals v ws us (snd (arrivals v ws ts st))),
      snd (arrivals v ws us (snd (arrivals v ws ts st))))"
  by (induction ts arbitrary: st) (simp_all add: Let_def case_prod_beta)

lemma window_run_recent:
  assumes "rate_times v ws es = older @ recent"
    and "\<forall>a \<in> set recent. \<forall>b \<in> set recent. b - a \<le> RATE_LIMIT_WINDOW_MS"
  shows "\<exists>pre. window_of (run v es st) ws = pre @ recent"
proof -
  have "window_of (run v es st) ws =
          window_of (snd (arrivals v ws recent (snd (arrivals v ws older st)))) ws"
    using window_run [of st ws st v es] by (simp add: assms(1) arrivals_append)
  then show ?thesis
    using arrivals_keeps [OF assms(2), of v ws "snd (arrivals v ws older st)"] by simp
qed

lemma arrivals_spaced_window:
  assumes "window_of st ws = []"
    and "successively (\<lambda>a b. b - a > RATE_LIMIT_WINDOW_MS) ts"
  shows "window_of (snd (arrivals v ws ts st)) ws = (if ts = [] then [] else [last ts])"
  using assms(2)
proof (induction ts rule: rev_induct)
  case Nil
  then show ?case using assms(1) by simp
next
  case (snoc u ts)
  from snoc.prems have gap: "successively (\<lambda>a b. b - a > RATE_LIMIT_WINDOW_MS) ts"
    and lst: "ts \<noteq> [] \<longrightarrow> u - last ts > RATE_LIMIT_WINDOW_MS"
    by (auto simp: successively_append_iff)
  have w: "window_of (snd (arrivals v ws ts st)) ws = (if ts = [] then [] else [last ts])"
    using snoc.IH [OF gap] .
  have "window_of (snd (arrivals v ws (ts @ [u]) st)) ws =
          filter (\<lambda>x. x \<ge> u - RATE_LIMIT_WINDOW_MS) (window_of (snd (arrivals v ws ts st)) ws) @ [u]"
    using enforceRate_window [of v ws u "snd (arrivals v ws ts st)"]
    by (simp add: arrivals_snoc Let_def case_prod_beta)
  then show ?case
    using w lst by auto
qed

lemma window_run_bounded:
  assumes "rateLimit st ws = None"
    and "successively (\<lambda>a b. b - a > RATE_LIMIT_WINDOW_MS) (rate_times v ws es @ [t])"
  shows "\<forall>x \<in> set (window_of (run v es st) ws). x < t - RATE_LIMIT_WINDOW_MS"
proof -
  let ?ts = "rate_times v ws es"
  have empty: "window_of st ws = []"
    using assms(1) by (simp add: window_of_def)
  from assms(2) have gap: "successively (\<lambda>a b. b - a > RATE_LIMIT_WINDOW_MS) ?ts"
    and lst: "?ts \<noteq> [] \<longrightarrow> t - last ?ts > RATE_LIMIT_WINDOW_MS"
    by (auto simp: successively_append_iff)
  have "window_of (run v es st) ws = (if ?ts = [] then [] else [last ?ts])"
    using window_run [of st ws st v es] arrivals_spaced_window [OF empty gap, of v]
    by simp
  then show ?thesis
    using lst by auto
qed

lemma rate_times_own:
  "\<not> too_big v q \<Longrightarrow> rate_times v ws (map (Message ws q) ts) = ts"
  by (induction ts) simp_all

text \<open>
  Claim C9. Take any run of events and a further message of connection \<open>ws\<close> that
  passes the size check. When the last 60 rate checks of \<open>ws\<close> in the run and this
  message fall within one window of 10000 ms (any two of the 61 times differ by at most
  10000), the rate check of the message fails: the message is not dispatched and
  \<^verbatim>\<open>ws.close\<close> is called with code 1013, which leaves the socket not open. When the
  connection had no timestamps at the start and the rate checks of \<open>ws\<close>, this
  message included, are spaced by more than 10000 ms, the rate check of the message
  passes.
\<close>

theorem rate_limit_61st_and_spaced:
  "(rate_times v ws es = older @ recent \<and> length recent = 60 \<and> \<not> too_big v p \<and>
      (\<forall>a \<in> set (recent @ [t]). \<forall>b \<in> set (recent @ [t]). b - a \<le> 10000) \<longrightarrow>
      fst (enforceRate v ws t (run v es st)) = False \<and>
      on_message v ws p t (run v es st) =
        (None, close_ws ws (Some 1013) (txt_rate_limit v) (after_rate ws t (run v es st))) \<and>
      last (closeCalls (socks (snd (on_message v ws p t (run v es st))) ws))
        = (Some 1013, txt_rate_limit v) \<and>
      readyState (socks (snd (on_message v ws p t (run v es st))) ws) \<noteq> OPEN) \<and>
   (rateLimit st ws = None \<and>
      successively (\<lambda>a b. b - a > 10000) (rate_times v ws es @ [t]) \<longrightarrow>
      fst (enforceRate v ws t (run v es st)))"
proof (intro conjI impI)
  assume h: "rate_times v ws es = older @ recent \<and> length recent = 60 \<and> \<not> too_big v p \<and>
      (\<forall>a \<in> set (recent @ [t]). \<forall>b \<in> set (recent @ [t]). b - a \<le> 10000)"
  let ?st = "run v es st"
  from h have win: "\<forall>a \<in> set recent. \<forall>b \<in> set recent. b - a \<le> RATE_LIMIT_WINDOW_MS"
    by (simp add: RATE_LIMIT_WINDOW_MS_def)
  from h window_run_recent [OF _ win, of v ws es older st]
  obtain pre where pre: "window_of ?st ws = pre @ recent"
    by auto
  have keep: "filter (\<lambda>x. x \<ge> t - RATE_LIMIT_WINDOW_MS) recent = recent"
    using h by (auto simp: filter_id_conv RATE_LIMIT_WINDOW_MS_def)
  have len: "length recent \<ge> RATE_LIMIT_MAX"
    using h by (simp add: RATE_LIMIT_MAX_def)
  then have fails: "\<not> fst (enforceRate v ws t ?st)"
    using pre keep by (simp add: enforceRate_ok)
  then show "fst (enforceRate v ws t ?st) = False"
    by simp
  have er: "enforceRate v ws t ?st =
      (False, close_ws ws (Some 1013) (txt_rate_limit v) (after_rate ws t ?st))"
    using fails by (auto simp: enforceRate_def after_rate_def window_of_def Let_def split: if_splits)
  show om: "on_message v ws p t ?st =
      (None, close_ws ws (Some 1013) (txt_rate_limit v) (after_rate ws t ?st))"
    using h by (simp add: on_message_def er)
  show "last (closeCalls (socks (snd (on_message v ws p t ?st)) ws)) = (Some 1013, txt_rate_limit v)"
    by (simp add: om close_ws_def Let_def)
  show "readyState (socks (snd (on_message v ws p t ?st)) ws) \<noteq> OPEN"
    by (simp add: om close_ws_def Let_def)
next
  assume h: "rateLimit st ws = None \<and>
      successively (\<lambda>a b. b - a > 10000) (rate_times v ws es @ [t])"
  then have "\<forall>x \<in> set (window_of (run v es st) ws). x < t - RATE_LIMIT_WINDOW_MS"
    by (intro window_run_bounded) (simp_all add: RATE_LIMIT_WINDOW_MS_def)
  then have "filter (\<lambda>x. x \<ge> t - RATE_LIMIT_WINDOW_MS) (window_of (run v es st) ws) = []"
    by (auto simp: filter_empty_conv)
  then show "fst (enforceRate v ws t (run v es st))"
    by (simp add: enforceRate_ok RATE_LIMIT_MAX_def)
qed

theorem rate_limit_61st_and_spaced_witness:
  "last (closeCalls (socks (snd (on_message Deno 0 (text_payload leave_env) 60
      (run Deno (map (Message 0 (text_payload leave_env)) (map int [0..<60])) init))) 0))
     = (Some 1013, ''rate limit'') \<and>
   fst (enforceRate Node 0 20002
      (run Node (map (Message 0 (text_payload leave_env)) [0, 10001]) init))"
proof -
  let ?q = "text_payload leave_env"
  have small: "\<not> too_big v ?q" for v
    by (cases v) (simp_all add: text_payload_def MAX_MESSAGE_BYTES_def)
  have a: "rate_times Deno 0 (map (Message 0 ?q) (map int [0..<60])) = [] @ map int [0..<60]"
    by (simp only: rate_times_own [OF small] append_Nil)
  have b: "length (map int [0..<60]) = 60"
    by simp
  have c: "\<forall>a \<in> set (map int [0..<60] @ [60]). \<forall>b \<in> set (map int [0..<60] @ [60]). b - a \<le> 10000"
    by auto
  have d: "rateLimit init 0 = None"
    by (simp add: init_def)
  have e: "successively (\<lambda>a b. b - a > 10000)
             (rate_times Node 0 (map (Message 0 ?q) [0, 10001]) @ [20002])"
    by (simp only: rate_times_own [OF small]) simp
  from rate_limit_61st_and_spaced
      [of Deno 0 "map (Message 0 ?q) (map int [0..<60])" "[]" "map int [0..<60]" ?q 60 init]
    a b c small [of Deno]
  have 1: "last (closeCalls (socks (snd (on_message Deno 0 ?q 60
      (run Deno (map (Message 0 ?q) (map int [0..<60])) init))) 0)) = (Some 1013, txt_rate_limit Deno)"
    by blast
  from rate_limit_61st_and_spaced
      [of Node 0 "map (Message 0 ?q) [0, 10001]" "[]" "[]" ?q 20002 init] d e
  have 2: "fst (enforceRate Node 0 20002 (run Node (map (Message 0 ?q) [0, 10001]) init))"
    by blast
  from 1 2 show ?thesis by (simp only: txt_rate_limit.simps)
qed

section \<open>A stale binding at cleanup\<close>

text \<open>
  After connection 1 has left room \<open>r1\<close>, connection 3 joins it as sender and is paired
  with connection 2. When the socket of connection 1 then closes, \<^verbatim>\<open>cleanupSocket\<close>
  still reads \<open>r1\<close> and \<^verbatim>\<open>sender\<close> from it, leaves the slot of connection 3 alone
  and writes \<^verbatim>\<open>peer-left\<close> to connection 2, whose peer has not left.
\<close>

lemma stale_cleanup_notifies_new_pair:
  "outbox (socks (run v
      [Message 3 (text_payload (join_env ''r1'' ''t'' ''sender'')) 3,
       SockClose 1 4] left_state) 2)
     = [Joined (JStr ''r1'') (JStr ''receiver''), Ready, PeerLeft, Ready, PeerLeft]"
  "map_of (rooms (run v
      [Message 3 (text_payload (join_env ''r1'' ''t'' ''sender'')) 3,
       SockClose 1 4] left_state)) (JStr ''r1'')
     = Some \<lparr>sender = Some 3, receiver = Some 2, token = JStr ''t'', touchedAt = 4\<rparr>"
proof -
  let ?m = "join_env ''r1'' ''t'' ''sender''"
  have acc: "accepted v 3 (text_payload ?m) 3 left_state ?m"
    by (cases v) (simp_all add: example_defs left_state_def)
  have j: "step v (Message 3 (text_payload ?m) 3) left_state =
      \<lparr>rooms = [(JStr ''r1'',
         \<lparr>sender = Some 3, receiver = Some 2, token = JStr ''t'', touchedAt = 3\<rparr>)],
       rateLimit = (\<lambda>c. None)(2 \<mapsto> [1], 1 \<mapsto> [0, 2], 3 \<mapsto> [3]),
       socks = (\<lambda>c. fresh_socket)
        (1 := \<lparr>roomId = JStr ''r1'', role = JStr ''sender'', readyState = OPEN,
               outbox = [Joined (JStr ''r1'') (JStr ''sender''), Ready], closeCalls = []\<rparr>,
         2 := \<lparr>roomId = JStr ''r1'', role = JStr ''receiver'', readyState = OPEN,
               outbox = [Joined (JStr ''r1'') (JStr ''receiver''), Ready, PeerLeft, Ready],
               closeCalls = []\<rparr>,
         3 := \<lparr>roomId = JStr ''r1'', role = JStr ''sender'', readyState = OPEN,
               outbox = [Joined (JStr ''r1'') (JStr ''sender''), Ready], closeCalls = []\<rparr>)\<rparr>"
    by (simp only: step.simps on_message_accepted [OF acc] snd_conv)
       (simp add: join_env_def left_state_def after_rate_def window_of_def
          fresh_socket_def dispatch_def handle_join_def getRoom_def set_room_def touchRoom_def
          MAX_PER_ROOM_def RATE_LIMIT_WINDOW_MS_def Let_def fun_upd_twist)
  show "outbox (socks (run v [Message 3 (text_payload ?m) 3, SockClose 1 4] left_state) 2)
     = [Joined (JStr ''r1'') (JStr ''receiver''), Ready, PeerLeft, Ready, PeerLeft]"
    by (simp only: run.simps j)
       (simp add: cleanupSocket_def set_room_def touchRoom_def Let_def)
  show "map_of (rooms (run v [Message 3 (text_payload ?m) 3, SockClose 1 4] left_state))
      (JStr ''r1'')
     = Some \<lparr>sender = Some 3, receiver = Some 2, token = JStr ''t'', touchedAt = 4\<rparr>"
    by (simp only: run.simps j)
       (simp add: cleanupSocket_def set_room_def touchRoom_def Let_def)
qed

section \<open>Two connections bound to one room and role\<close>






end
